theory Spec2Isabelle
  imports Complex_Main "HOL-Library.AList" "HOL-Library.Char_ord" "HOL-Library.List_Lexorder"
begin

section \<open>Data model\<close>

text \<open>
  The dataclasses of \<^verbatim>\<open>generate_schedule.py\<close> and the objects that
  \<^verbatim>\<open>api.py\<close> constructs, field by field.  Python floats are read as
  reals (see the section on floating-point arithmetic), Python ints as \<open>int\<close>,
  \<open>Optional[float]\<close> as \<open>real option\<close>.
  An insertion-ordered \<open>dict\<close> is an association list: \<open>map_of\<close> reads it and
  \<open>AList.update\<close> writes it (in place for a key that is present, at the end for a new one).
\<close>

record Station =
  code :: string
  name :: string
  platform_count :: int
  halt_min :: real
  lat :: "real option"
  lon :: "real option"

record Section =
  from_code :: string
  from_name :: string
  to_code :: string
  to_name :: string
  distance_km :: real
  travel_min :: real
  leg_type :: string

text \<open>\<^verbatim>\<open>ScenarioTrain\<close> of \<^verbatim>\<open>api.py\<close>; its \<^verbatim>\<open>train_id\<close> and
  \<^verbatim>\<open>name\<close> carry the prefix \<open>req_\<close> here, since a train has fields of the same name.\<close>

record ScenarioTrain =
  req_train_id :: string
  req_name :: "string option"
  train_type :: string
  priority_level :: string
  source :: string
  destination :: string

text \<open>\<^verbatim>\<open>BlockOccupancy\<close> and \<^verbatim>\<open>Train\<close> (imported as \<^verbatim>\<open>SimTrain\<close>), with
  the fields that \<^verbatim>\<open>analyze_scenario\<close> passes to their constructors.\<close>

record BlockOccupancy =
  block_id :: string
  start_time :: real
  end_time :: real

record SimTrain =
  train_id :: string
  category :: string
  priority :: int
  planned_path :: "string list"
  occupancies :: "BlockOccupancy list"
  delay_minutes :: real

datatype py_error = ValueError | ZeroDivisionError | KeyError | IndexError

section \<open>Floating-point arithmetic\<close>

text \<open>
  A finite Python float is read as the real number it denotes.  Comparison, \<open>max\<close> and
  \<open>min\<close> are exact.  An arithmetic operation and a function of \<^verbatim>\<open>math\<close> return the
  rounding of the exact result; the rounding \<open>rd\<close> is a parameter of every definition that
  computes with floats (CPython rounds to the nearest double, and the functions of
  \<^verbatim>\<open>math\<close> are taken to round like the arithmetic operations; \<open>exact\<close> rounds nothing).
  A division by zero raises \<^verbatim>\<open>ZeroDivisionError\<close> and \<^verbatim>\<open>math.sqrt\<close> of a negative
  number raises \<^verbatim>\<open>ValueError\<close>.  The floats \<^verbatim>\<open>inf\<close> and \<^verbatim>\<open>nan\<close> are not values of
  this reading.
\<close>

type_synonym rounding = "real \<Rightarrow> real"

definition exact :: rounding where
  "exact = (\<lambda>x. x)"

definition fl_div :: "rounding \<Rightarrow> real \<Rightarrow> real \<Rightarrow> py_error + real" where
  "fl_div rd x y = (if y = 0 then Inl ZeroDivisionError else Inr (rd (x / y)))"

definition fl_sqrt :: "rounding \<Rightarrow> real \<Rightarrow> py_error + real" where
  "fl_sqrt rd x = (if x < 0 then Inl ValueError else Inr (rd (sqrt x)))"

section \<open>The analyze-scenario pipeline (\<^verbatim>\<open>api.py\<close>)\<close>

subsection \<open>Name graph and travel-time table\<close>

type_synonym name_graph = "(string \<times> string list) list"
type_synonym edge_tt = "string \<times> string \<rightharpoonup> real"

text \<open>\<^verbatim>\<open>name_graph.get(node, [])\<close>.\<close>

definition graph_get :: "name_graph \<Rightarrow> string \<Rightarrow> string list" where
  "graph_get g node = (case map_of g node of None \<Rightarrow> [] | Some nbs \<Rightarrow> nbs)"

text \<open>The body of the loop over the augmented sections: a section with an empty
  endpoint name is passed over; otherwise the target is appended to the source's
  neighbour list (a \<^verbatim>\<open>defaultdict(list)\<close>) and the pair's travel time is overwritten
  with \<^verbatim>\<open>max(1.0, sec.travel_min)\<close>.\<close>

fun index_section :: "Section \<Rightarrow> name_graph \<times> edge_tt \<Rightarrow> name_graph \<times> edge_tt" where
  "index_section sec (g, tt) =
     (let u = from_name sec; v = to_name sec in
      if u = [] \<or> v = [] then (g, tt)
      else (AList.update u (graph_get g u @ [v]) g, tt((u, v) \<mapsto> max 1 (travel_min sec))))"

definition build_name_index :: "Section list \<Rightarrow> name_graph \<times> edge_tt" where
  "build_name_index secs = fold index_section secs ([], Map.empty)"

subsection \<open>Breadth-first route search\<close>

text \<open>The inner \<^verbatim>\<open>for nb in name_graph.get(node, [])\<close>: an unseen neighbour is marked
  and queued with its path.\<close>

fun visit :: "string list \<Rightarrow> string \<Rightarrow>
    string set \<times> (string \<times> string list) list \<Rightarrow> string set \<times> (string \<times> string list) list" where
  "visit path nb (seen, q) =
     (if nb \<in> seen then (seen, q) else (insert nb seen, q @ [(nb, path @ [nb])]))"

definition graph_nodes :: "name_graph \<Rightarrow> string set" where
  "graph_nodes g = set (concat (map snd g))"

lemma graph_get_nodes: "set (graph_get g node) \<subseteq> graph_nodes g"
proof (cases "map_of g node")
  case None
  then show ?thesis by (simp add: graph_get_def)
next
  case (Some nbs)
  then have "(node, nbs) \<in> set g" by (rule map_of_SomeD)
  then have "nbs \<in> snd ` set g" by force
  then have "set nbs \<subseteq> graph_nodes g" unfolding graph_nodes_def by auto
  with Some show ?thesis by (simp add: graph_get_def)
qed

lemma finite_graph_nodes: "finite (graph_nodes g)"
  unfolding graph_nodes_def by (rule finite_set)

lemma visit_measure:
  assumes "finite N" "set nbs \<subseteq> N" "fold (visit path) nbs (seen, q) = (seen', q')"
  shows "2 * card (N - seen') + length q' \<le> 2 * card (N - seen) + length q"
  using assms(2,3)
proof (induction nbs arbitrary: seen q)
  case Nil
  then show ?case by simp
next
  case (Cons nb nbs)
  from Cons.prems(1) have sub: "set nbs \<subseteq> N" and nb: "nb \<in> N" by simp_all
  show ?case
  proof (cases "nb \<in> seen")
    case True
    with Cons.prems(2) have "fold (visit path) nbs (seen, q) = (seen', q')" by simp
    from Cons.IH [OF sub this] show ?thesis .
  next
    case False
    with Cons.prems(2)
    have "fold (visit path) nbs (insert nb seen, q @ [(nb, path @ [nb])]) = (seen', q')"
      by simp
    from Cons.IH [OF sub this]
    have le: "2 * card (N - seen') + length q'
        \<le> 2 * card (N - insert nb seen) + Suc (length q)"
      by simp
    have eq: "N - insert nb seen = (N - seen) - {nb}" by auto
    have fin: "finite (N - seen)" using assms(1) by simp
    have mem: "nb \<in> N - seen" using nb False by simp
    have "card (N - seen) = Suc (card (N - seen - {nb}))"
      using fin mem by (rule card.remove)
    then have "card (N - seen) = Suc (card (N - insert nb seen))"
      by (simp only: eq)
    with le show ?thesis by simp
  qed
qed

text \<open>The \<^verbatim>\<open>while q\<close> loop of \<^verbatim>\<open>shortest_path\<close>: the queue is a list, popped on
  the left; an empty queue returns the empty path.\<close>

function bfs :: "name_graph \<Rightarrow> string \<Rightarrow> (string \<times> string list) list \<Rightarrow> string set \<Rightarrow> string list" where
  "bfs g dst [] seen = []"
| "bfs g dst ((node, path) # q) seen =
     (if node = dst then path
      else (case fold (visit path) (graph_get g node) (seen, q) of
              (seen', q') \<Rightarrow> bfs g dst q' seen'))"
  by pat_completeness auto
termination
proof (relation "measure (\<lambda>(g, dst, q, seen). 2 * card (graph_nodes g - seen) + length q)", goal_cases)
  case 1
  show ?case by simp
next
  case (2 g dst node path q seen sa qa)
  then have "fold (visit path) (graph_get g node) (seen, q) = (sa, qa)" by simp
  from visit_measure [OF finite_graph_nodes graph_get_nodes this]
  show ?case by simp
qed


definition shortest_path :: "name_graph \<Rightarrow> string \<Rightarrow> string \<Rightarrow> string list" where
  "shortest_path g start dst =
     (if map_of g start = None then [] else bfs g dst [(start, [start])] {start})"

subsection \<open>Occupancies and trains\<close>

text \<open>\<^verbatim>\<open>pr_map.get(t.priority_level, 1)\<close>.\<close>

definition pr_map :: "string \<Rightarrow> int" where
  "pr_map p = (if p = ''High'' then 5 else if p = ''Medium'' then 3
               else if p = ''Low'' then 1 else 1)"

text \<open>\<^verbatim>\<open>edge_tt.get((u, v), 5.0)\<close>.\<close>

definition hop_time :: "edge_tt \<Rightarrow> string \<Rightarrow> string \<Rightarrow> real" where
  "hop_time tt u v = (case tt (u, v) of Some t \<Rightarrow> t | None \<Rightarrow> 5)"

text \<open>The loop \<^verbatim>\<open>for i in range(len(route) - 1)\<close>, with the clock \<^verbatim>\<open>current\<close> as an
  argument; a route of fewer than two names makes no iteration.  Both \<^verbatim>\<open>current + travel\<close>
  and \<^verbatim>\<open>current += travel\<close> are the rounded sum.\<close>

fun build_occ :: "rounding \<Rightarrow> edge_tt \<Rightarrow> string list \<Rightarrow> real \<Rightarrow> BlockOccupancy list" where
  "build_occ rd tt (u # v # rest) current =
     (let travel = hop_time tt u v in
      \<lparr>block_id = u @ ''-'' @ v, start_time = current, end_time = rd (current + travel)\<rparr>
        # build_occ rd tt (v # rest) (rd (current + travel)))"
| "build_occ rd tt route current = []"

text \<open>\<^verbatim>\<open>str.lower\<close> on the ASCII letters; bytes outside \<open>A..Z\<close> are kept (the category
  plays no part in any decision).\<close>

definition lower_char :: "char \<Rightarrow> char" where
  "lower_char c = (if CHR ''A'' \<le> c \<and> c \<le> CHR ''Z'' then char_of (of_char c + (32::nat)) else c)"

definition lower :: "string \<Rightarrow> string" where
  "lower s = map lower_char s"

text \<open>The loop over \<^verbatim>\<open>req.trains\<close> that fills \<^verbatim>\<open>built_trains\<close>.\<close>

fun build_trains :: "rounding \<Rightarrow> name_graph \<Rightarrow> edge_tt \<Rightarrow> ScenarioTrain list \<Rightarrow> SimTrain list" where
  "build_trains rd g tt [] = []"
| "build_trains rd g tt (t # ts) =
     (let route = shortest_path g (source t) (destination t) in
      if route = [] then build_trains rd g tt ts
      else \<lparr>train_id = req_train_id t, category = lower (train_type t),
             priority = pr_map (priority_level t), planned_path = route,
             occupancies = build_occ rd tt route 0, delay_minutes = 0\<rparr>
           # build_trains rd g tt ts)"

section \<open>Network construction (\<^verbatim>\<open>generate_schedule.py\<close>)\<close>

type_synonym stations = "(string \<times> Station) list"

subsection \<open>Great-circle distance\<close>

text \<open>\<^verbatim>\<open>math.radians(x)\<close>: the product of \<open>x\<close> and the constant \<open>pi / 180\<close>.\<close>

definition radians :: "rounding \<Rightarrow> real \<Rightarrow> real" where
  "radians rd x = rd (x * rd (pi / 180))"

text \<open>The angle that \<^verbatim>\<open>math.atan2(y, x)\<close> rounds.\<close>

definition atan2 :: "real \<Rightarrow> real \<Rightarrow> real" where
  "atan2 y x =
     (if 0 < x then arctan (y / x)
      else if x < 0 then (if 0 \<le> y then arctan (y / x) + pi else arctan (y / x) - pi)
      else if 0 < y then pi / 2
      else if y < 0 then - (pi / 2)
      else 0)"

text \<open>\<^verbatim>\<open>haversine_km\<close>, operation by operation.  The two calls of \<^verbatim>\<open>math.sqrt\<close> raise
  when the rounded \<open>a\<close> is negative or exceeds 1.\<close>

definition haversine_km :: "rounding \<Rightarrow> real \<Rightarrow> real \<Rightarrow> real \<Rightarrow> real \<Rightarrow> py_error + real" where
  "haversine_km rd lat1 lon1 lat2 lon2 =
     (let r = 6371;
          phi1 = radians rd lat1;
          phi2 = radians rd lat2;
          dphi = radians rd (rd (lat2 - lat1));
          dlambda = radians rd (rd (lon2 - lon1));
          a = rd (rd ((rd (sin (rd (dphi / 2))))\<^sup>2)
                + rd (rd (rd (cos phi1) * rd (cos phi2)) * rd ((rd (sin (rd (dlambda / 2))))\<^sup>2)))
      in case fl_sqrt rd a of
           Inl e \<Rightarrow> Inl e
         | Inr sa \<Rightarrow>
             (case fl_sqrt rd (rd (1 - a)) of
                Inl e \<Rightarrow> Inl e
              | Inr sb \<Rightarrow> Inr (rd (r * rd (2 * rd (atan2 sa sb))))))"

subsection \<open>Reading the source tables\<close>

text \<open>
  A table read by \<^verbatim>\<open>csv.DictReader\<close> is a list of rows, a row a partial map from
  column names to cells; a path for which \<^verbatim>\<open>os.path.exists\<close> is false is \<open>None\<close>.
  Python's \<^verbatim>\<open>float\<close> and \<^verbatim>\<open>int\<close> on strings are parameters \<open>pf\<close> and \<open>pint\<close>
  (\<open>None\<close> where they raise); a cell that \<^verbatim>\<open>float\<close> reads as \<^verbatim>\<open>inf\<close> or \<^verbatim>\<open>nan\<close> has
  no value here.
\<close>

type_synonym row = "string \<rightharpoonup> string"
type_synonym table = "row list option"

text \<open>\<^verbatim>\<open>str.strip()\<close>, over the ASCII white space.\<close>

definition is_space :: "char \<Rightarrow> bool" where
  "is_space c = ((of_char c :: nat) \<in> {9, 10, 11, 12, 13, 28, 29, 30, 31, 32})"

definition strip :: "string \<Rightarrow> string" where
  "strip s = rev (dropWhile is_space (rev (dropWhile is_space s)))"

text \<open>\<^verbatim>\<open>row.get(k) or d\<close>: the default replaces an absent and an empty cell.\<close>

definition cell_or :: "row \<Rightarrow> string \<Rightarrow> string \<Rightarrow> string" where
  "cell_or r k d = (case r k of None \<Rightarrow> d | Some s \<Rightarrow> if s = [] then d else s)"

definition parse_float :: "(string \<Rightarrow> real option) \<Rightarrow> string \<Rightarrow> real \<Rightarrow> real" where
  "parse_float pf val dflt = (case pf val of Some x \<Rightarrow> x | None \<Rightarrow> dflt)"

text \<open>\<^verbatim>\<open>int(row.get("Platform Count", 0) or 0)\<close>: an unparsable cell raises.\<close>

definition platform_of :: "(string \<Rightarrow> int option) \<Rightarrow> row \<Rightarrow> py_error + int" where
  "platform_of pint r =
     (case r ''Platform Count'' of
        None \<Rightarrow> Inr 0
      | Some s \<Rightarrow> if s = [] then Inr 0
                  else (case pint s of None \<Rightarrow> Inl ValueError | Some n \<Rightarrow> Inr n))"

fun sih_rows :: "(string \<Rightarrow> real option) \<Rightarrow> (string \<Rightarrow> int option) \<Rightarrow> row list \<Rightarrow> stations
    \<Rightarrow> py_error + stations" where
  "sih_rows pf pint [] sts = Inr sts"
| "sih_rows pf pint (r # rows) sts =
     (let c = strip (cell_or r ''Station Code'' []);
          n = strip (cell_or r ''Station Name'' c)
      in case platform_of pint r of
           Inl e \<Rightarrow> Inl e
         | Inr platform \<Rightarrow>
             let halt = parse_float pf (cell_or r ''Halt Time (mins)'' ''0'') 0
             in sih_rows pf pint rows
                  (AList.update c \<lparr>code = c, name = n, platform_count = platform,
                                    halt_min = halt, lat = None, lon = None\<rparr> sts))"

definition load_sih_stations :: "(string \<Rightarrow> real option) \<Rightarrow> (string \<Rightarrow> int option) \<Rightarrow> table
    \<Rightarrow> py_error + stations" where
  "load_sih_stations pf pint file =
     (case file of None \<Rightarrow> Inr [] | Some rows \<Rightarrow> sih_rows pf pint rows [])"

text \<open>\<^verbatim>\<open>parse_float(lat) if lat not in (None, "") else None\<close>.\<close>

definition coord_of :: "(string \<Rightarrow> real option) \<Rightarrow> row \<Rightarrow> string \<Rightarrow> real option" where
  "coord_of pf r k =
     (case r k of None \<Rightarrow> None
      | Some s \<Rightarrow> if s = [] then None else Some (parse_float pf s 0))"

text \<open>A code seen before is replaced only when the stored row lacks a coordinate and the
  new row has both.\<close>

fun trainsih_rows :: "(string \<Rightarrow> real option) \<Rightarrow> (string \<Rightarrow> int option) \<Rightarrow> row list \<Rightarrow> stations
    \<Rightarrow> py_error + stations" where
  "trainsih_rows pf pint [] sts = Inr sts"
| "trainsih_rows pf pint (r # rows) sts =
     (let c = strip (cell_or r ''Station Code'' []);
          n = strip (cell_or r ''Station Name'' c)
      in case platform_of pint r of
           Inl e \<Rightarrow> Inl e
         | Inr platform \<Rightarrow>
             let halt = parse_float pf (cell_or r ''Halt Time (mins)'' ''0'') 0;
                 latf = coord_of pf r ''Latitude'';
                 lonf = coord_of pf r ''Longitude'';
                 st = \<lparr>code = c, name = n, platform_count = platform,
                       halt_min = halt, lat = latf, lon = lonf\<rparr>
             in trainsih_rows pf pint rows
                  (case map_of sts c of
                     Some existing \<Rightarrow>
                       if (lat existing = None \<or> lon existing = None)
                          \<and> (latf \<noteq> None \<and> lonf \<noteq> None)
                       then AList.update c st sts else sts
                   | None \<Rightarrow> AList.update c st sts))"

definition load_trainsih_stations :: "(string \<Rightarrow> real option) \<Rightarrow> (string \<Rightarrow> int option) \<Rightarrow> table
    \<Rightarrow> py_error + stations" where
  "load_trainsih_stations pf pint file =
     (case file of None \<Rightarrow> Inr [] | Some rows \<Rightarrow> trainsih_rows pf pint rows [])"

text \<open>The body of the loop of \<^verbatim>\<open>merge_stations\<close> over the SIH stations: a code that
  is already merged keeps the merged entry's non-empty name, non-zero platform count and
  halt time and its coordinates; a new code is entered as it is.\<close>

fun merge_sih :: "string \<times> Station \<Rightarrow> stations \<Rightarrow> stations" where
  "merge_sih (c, st) merged =
     (case map_of merged c of
        Some m \<Rightarrow>
          AList.update c
            \<lparr>code = c,
             name = (if name m \<noteq> [] then name m else name st),
             platform_count = (if platform_count m \<noteq> 0 then platform_count m
                               else platform_count st),
             halt_min = (if halt_min m \<noteq> 0 then halt_min m else halt_min st),
             lat = lat m, lon = lon m\<rparr> merged
      | None \<Rightarrow> AList.update c st merged)"

text \<open>\<^verbatim>\<open>merged.update(trn)\<close> on the empty dictionary, then the loop over \<^verbatim>\<open>sih\<close>.\<close>

definition merge_stations :: "(string \<Rightarrow> real option) \<Rightarrow> (string \<Rightarrow> int option) \<Rightarrow> table \<Rightarrow> table
    \<Rightarrow> py_error + stations" where
  "merge_stations pf pint sih_path trainsih_path =
     (case load_sih_stations pf pint sih_path of
        Inl e \<Rightarrow> Inl e
      | Inr sih \<Rightarrow>
          (case load_trainsih_stations pf pint trainsih_path of
             Inl e \<Rightarrow> Inl e
           | Inr trn \<Rightarrow>
               Inr (fold merge_sih sih (fold (\<lambda>(c, st). AList.update c st) trn []))))"

text \<open>A row is kept when both codes are non-empty and differ.\<close>

fun section_rows :: "(string \<Rightarrow> real option) \<Rightarrow> row list \<Rightarrow> Section list" where
  "section_rows pf [] = []"
| "section_rows pf (r # rows) =
     (let fc = strip (cell_or r ''From Station Code'' []);
          fn = strip (cell_or r ''From Station Name'' fc);
          tc = strip (cell_or r ''To Station Code'' []);
          tn = strip (cell_or r ''To Station Name'' tc);
          dist = parse_float pf (cell_or r ''Distance (km)'' ''0'') 0;
          tmin = parse_float pf (cell_or r ''Average Travel Time (mins)'' ''0'') 0
      in if fc \<noteq> [] \<and> tc \<noteq> [] \<and> fc \<noteq> tc
         then \<lparr>from_code = fc, from_name = fn, to_code = tc, to_name = tn,
               distance_km = dist, travel_min = tmin, leg_type = ''real''\<rparr>
              # section_rows pf rows
         else section_rows pf rows)"

definition load_real_sections :: "(string \<Rightarrow> real option) \<Rightarrow> table \<Rightarrow> Section list" where
  "load_real_sections pf file = (case file of None \<Rightarrow> [] | Some rows \<Rightarrow> section_rows pf rows)"

subsection \<open>Nearest-neighbour augmentation\<close>

text \<open>The directed pair of a section, the element type of \<^verbatim>\<open>existing\<close>.\<close>

definition directed_pair :: "Section \<Rightarrow> string \<times> string" where
  "directed_pair s = (from_code s, to_code s)"

text \<open>The loop that fills \<^verbatim>\<open>dlist\<close> for the station \<open>c\<close> at \<open>(la, lo)\<close>: the station
  itself and the stations lacking a coordinate are passed over.  \<^verbatim>\<open>stations[other_code]\<close>
  raises on a missing key, and an error of \<^verbatim>\<open>haversine_km\<close> ends the loop.\<close>

fun distances :: "rounding \<Rightarrow> stations \<Rightarrow> string \<Rightarrow> real \<Rightarrow> real \<Rightarrow> string list
    \<Rightarrow> py_error + (real \<times> string) list" where
  "distances rd sts c la lo [] = Inr []"
| "distances rd sts c la lo (oc # ocs) =
     (if oc = c then distances rd sts c la lo ocs
      else (case map_of sts oc of
              None \<Rightarrow> Inl KeyError
            | Some ot \<Rightarrow>
                (case (lat ot, lon ot) of
                   (Some ola, Some olo) \<Rightarrow>
                     (case haversine_km rd la lo ola olo of
                        Inl e \<Rightarrow> Inl e
                      | Inr d \<Rightarrow>
                          (case distances rd sts c la lo ocs of
                             Inl e \<Rightarrow> Inl e
                           | Inr dl \<Rightarrow> Inr ((d, oc) # dl)))
                 | _ \<Rightarrow> distances rd sts c la lo ocs)))"

text \<open>The loop over the sorted \<^verbatim>\<open>dlist\<close>, with the counter \<^verbatim>\<open>added\<close>, the set
  \<^verbatim>\<open>existing\<close> and the list \<^verbatim>\<open>result\<close>: it stops at \<open>k\<close> additions, passes over a pair
  that exists, and otherwise appends an inferred section.  The division raises on a zero
  speed, the two name lookups on a missing key.\<close>

fun connect :: "rounding \<Rightarrow> stations \<Rightarrow> string \<Rightarrow> int \<Rightarrow> real \<Rightarrow> (real \<times> string) list \<Rightarrow> int
    \<Rightarrow> (string \<times> string) set \<times> Section list
    \<Rightarrow> py_error + (string \<times> string) set \<times> Section list" where
  "connect rd sts c k speed [] added (existing, result) = Inr (existing, result)"
| "connect rd sts c k speed ((d, oc) # dl) added (existing, result) =
     (if added \<ge> k then Inr (existing, result)
      else if (c, oc) \<in> existing then connect rd sts c k speed dl added (existing, result)
      else (case fl_div rd d speed of
              Inl e \<Rightarrow> Inl e
            | Inr q \<Rightarrow>
                (case (map_of sts c, map_of sts oc) of
                   (Some st, Some ot) \<Rightarrow>
                     connect rd sts c k speed dl (added + 1)
                       (insert (c, oc) existing,
                        result @ [\<lparr>from_code = c, from_name = name st, to_code = oc,
                                    to_name = name ot, distance_km = d,
                                    travel_min = rd (q * 60), leg_type = ''inferred''\<rparr>])
                 | _ \<Rightarrow> Inl KeyError)))"

text \<open>One iteration of the outer loop, for the code \<open>c\<close>; \<^verbatim>\<open>dlist.sort(key=lambda x: x[0])\<close>
  is the stable \<open>sort_key fst\<close>.\<close>

definition augment_station :: "rounding \<Rightarrow> stations \<Rightarrow> int \<Rightarrow> real \<Rightarrow> string
    \<Rightarrow> (string \<times> string) set \<times> Section list
    \<Rightarrow> py_error + (string \<times> string) set \<times> Section list" where
  "augment_station rd sts k speed c state =
     (case map_of sts c of
        None \<Rightarrow> Inl KeyError
      | Some st \<Rightarrow>
          (case (lat st, lon st) of
             (Some la, Some lo) \<Rightarrow>
               (case distances rd sts c la lo (map fst sts) of
                  Inl e \<Rightarrow> Inl e
                | Inr dlist \<Rightarrow> connect rd sts c k speed (sort_key fst dlist) 0 state)
           | _ \<Rightarrow> Inr state))"

fun augment_loop :: "rounding \<Rightarrow> stations \<Rightarrow> int \<Rightarrow> real \<Rightarrow> string list
    \<Rightarrow> (string \<times> string) set \<times> Section list
    \<Rightarrow> py_error + (string \<times> string) set \<times> Section list" where
  "augment_loop rd sts k speed [] state = Inr state"
| "augment_loop rd sts k speed (c # cs) state =
     (case augment_station rd sts k speed c state of
        Inl e \<Rightarrow> Inl e
      | Inr state' \<Rightarrow> augment_loop rd sts k speed cs state')"

definition augment_sections_with_knn :: "rounding \<Rightarrow> stations \<Rightarrow> Section list \<Rightarrow> int \<Rightarrow> real
    \<Rightarrow> py_error + Section list" where
  "augment_sections_with_knn rd sts base_sections k avg_speed_kmph =
     (case augment_loop rd sts k avg_speed_kmph (map fst sts)
             (set (map directed_pair base_sections), base_sections) of
        Inl e \<Rightarrow> Inl e
      | Inr (existing, result) \<Rightarrow> Inr result)"

subsection \<open>Adjacency\<close>

type_synonym adjacency = "(string \<times> (string \<times> Section) list) list"

text \<open>\<^verbatim>\<open>adj.get(a, [])\<close>, the lookup that \<^verbatim>\<open>add_train\<close> and \<^verbatim>\<open>pick_route\<close> use.\<close>

definition adj_get :: "adjacency \<Rightarrow> string \<Rightarrow> (string \<times> Section) list" where
  "adj_get adj a = (case map_of adj a of None \<Rightarrow> [] | Some nbs \<Rightarrow> nbs)"

text \<open>\<^verbatim>\<open>adj.setdefault(s.from_code, []).append((s.to_code, s))\<close> for every section.\<close>

definition build_adjacency :: "Section list \<Rightarrow> adjacency" where
  "build_adjacency secs =
     fold (\<lambda>s adj. AList.update (from_code s) (adj_get adj (from_code s) @ [(to_code s, s)]) adj)
       secs []"

subsection \<open>Picking routes for the schedule\<close>

text \<open>
  The generator draws from Python's module \<^verbatim>\<open>random\<close>.  The draws are a parameter: a
  sequence \<open>rnd\<close> of naturals and the position \<open>n\<close> of the next draw, which every drawing
  operation returns advanced.  \<^verbatim>\<open>random.choice\<close> raises \<^verbatim>\<open>IndexError\<close> on an empty
  sequence, \<^verbatim>\<open>random.randint\<close> raises \<^verbatim>\<open>ValueError\<close> on an empty range.
\<close>

type_synonym draws = "nat \<Rightarrow> nat"

definition random_choice :: "draws \<Rightarrow> nat \<Rightarrow> 'a list \<Rightarrow> py_error + 'a \<times> nat" where
  "random_choice rnd n xs =
     (if xs = [] then Inl IndexError else Inr (xs ! (rnd n mod length xs), Suc n))"

definition random_randint :: "draws \<Rightarrow> nat \<Rightarrow> int \<Rightarrow> int \<Rightarrow> py_error + int \<times> nat" where
  "random_randint rnd n a b =
     (if b < a then Inl ValueError else Inr (a + int (rnd n mod nat (b - a + 1)), Suc n))"

text \<open>The loop \<^verbatim>\<open>while start_code not in adj and attempts < 50\<close> of \<^verbatim>\<open>pick_route\<close>.\<close>

function pick_start :: "draws \<Rightarrow> adjacency \<Rightarrow> string list \<Rightarrow> string \<Rightarrow> nat \<Rightarrow> nat
    \<Rightarrow> py_error + string \<times> nat" where
  "pick_start rnd adj keys start_code attempts n =
     (if map_of adj start_code = None \<and> attempts < 50
      then (case random_choice rnd n keys of
              Inl e \<Rightarrow> Inl e
            | Inr (c, n') \<Rightarrow> pick_start rnd adj keys c (attempts + 1) n')
      else Inr (start_code, n))"
  by pat_completeness auto
termination
  by (relation "measure (\<lambda>(rnd, adj, keys, start_code, attempts, n). 50 - attempts)") auto

text \<open>The loop \<^verbatim>\<open>for _ in range(200)\<close> of \<^verbatim>\<open>pick_route\<close>, with the number of passes
  left as an argument: it ends when the current station has no unvisited neighbour and
  when the path has reached the target length.\<close>

fun extend_route :: "draws \<Rightarrow> adjacency \<Rightarrow> int \<Rightarrow> nat \<Rightarrow> nat \<Rightarrow> string set \<Rightarrow> string
    \<Rightarrow> Section list \<Rightarrow> py_error + Section list \<times> nat" where
  "extend_route rnd adj target_len 0 n visited current path_sections = Inr (path_sections, n)"
| "extend_route rnd adj target_len (Suc passes) n visited current path_sections =
     (let neighbors = map snd (filter (\<lambda>(nxt, sec). nxt \<notin> visited) (adj_get adj current)) in
      if neighbors = [] then Inr (path_sections, n)
      else (case random_choice rnd n neighbors of
              Inl e \<Rightarrow> Inl e
            | Inr (sec, n') \<Rightarrow>
                if int (length (path_sections @ [sec])) \<ge> target_len
                then Inr (path_sections @ [sec], n')
                else extend_route rnd adj target_len passes n' (insert (to_code sec) visited)
                       (to_code sec) (path_sections @ [sec])))"

text \<open>\<^verbatim>\<open>pick_route\<close>: the empty adjacency returns the empty route before any draw; the
  first draw is from the codes of the station map.\<close>

definition pick_route :: "draws \<Rightarrow> nat \<Rightarrow> adjacency \<Rightarrow> stations \<Rightarrow> int \<Rightarrow> int
    \<Rightarrow> py_error + Section list \<times> nat" where
  "pick_route rnd n adj sts min_stops max_stops =
     (if adj = [] then Inr ([], n)
      else (case random_choice rnd n (map fst sts) of
              Inl e \<Rightarrow> Inl e
            | Inr (c, n1) \<Rightarrow>
                (case pick_start rnd adj (map fst sts) c 0 n1 of
                   Inl e \<Rightarrow> Inl e
                 | Inr (start_code, n2) \<Rightarrow>
                     if map_of adj start_code = None then Inr ([], n2)
                     else (case random_randint rnd n2 (min_stops - 1) (max_stops - 1) of
                             Inl e \<Rightarrow> Inl e
                           | Inr (target_len, n3) \<Rightarrow>
                               (case extend_route rnd adj target_len 200 n3 {start_code}
                                       start_code [] of
                                  Inl e \<Rightarrow> Inl e
                                | Inr (path_sections, n4) \<Rightarrow>
                                    if int (length path_sections) < min_stops - 1
                                    then Inr ([], n4)
                                    else Inr (path_sections, n4))))))"

text \<open>The loop \<^verbatim>\<open>while tcount < num_trains and attempts < num_trains * 10\<close> of
  \<^verbatim>\<open>generate_trains_schedule\<close>, reduced to the routes of the trains it schedules (the rows
  written for a route are left out): each pass calls \<^verbatim>\<open>pick_route(adj, stations, 5, 10)\<close>,
  passes over an empty route, draws the train's type and priority, and passes over a
  route whose origin is no station of the map.\<close>

function schedule_routes :: "draws \<Rightarrow> adjacency \<Rightarrow> stations \<Rightarrow> int \<Rightarrow> int \<Rightarrow> int \<Rightarrow> nat
    \<Rightarrow> py_error + Section list list" where
  "schedule_routes rnd adj sts num_trains tcount attempts n =
     (if tcount < num_trains \<and> attempts < num_trains * 10
      then (case pick_route rnd n adj sts 5 10 of
              Inl e \<Rightarrow> Inl e
            | Inr (path_secs, n1) \<Rightarrow>
                if path_secs = []
                then schedule_routes rnd adj sts num_trains tcount (attempts + 1) n1
                else (case random_choice rnd n1
                             [''Passenger'', ''Express'', ''Superfast'', ''Freight'', ''Special''] of
                        Inl e \<Rightarrow> Inl e
                      | Inr (ttype, n2) \<Rightarrow>
                          (case random_choice rnd n2 [''High'', ''Medium'', ''Low''] of
                             Inl e \<Rightarrow> Inl e
                           | Inr (prio, n3) \<Rightarrow>
                               if map_of sts (from_code (hd path_secs)) = None
                               then schedule_routes rnd adj sts num_trains tcount
                                      (attempts + 1) n3
                               else (case schedule_routes rnd adj sts num_trains (tcount + 1)
                                            (attempts + 1) n3 of
                                       Inl e \<Rightarrow> Inl e
                                     | Inr routes \<Rightarrow> Inr (path_secs # routes)))))
      else Inr [])"
  by pat_completeness auto
termination
  by (relation "measure (\<lambda>(rnd, adj, sts, num_trains, tcount, attempts, n).
        nat (num_trains * 10 - attempts))") auto

declare schedule_routes.simps [simp del]

text \<open>\<^verbatim>\<open>generate_trains_schedule\<close> up to the routes: the adjacency of the sections, and the
  loop from the first draw of the seeded generator.\<close>

definition generate_routes :: "draws \<Rightarrow> stations \<Rightarrow> Section list \<Rightarrow> int
    \<Rightarrow> py_error + Section list list" where
  "generate_routes rnd sts secs num_trains =
     schedule_routes rnd (build_adjacency secs) sts num_trains 0 0 0"

section \<open>Conflict detection and precedence (\<^verbatim>\<open>rail_decision_engine\<close>)\<close>

text \<open>
  \<^verbatim>\<open>api.py\<close> imports \<^verbatim>\<open>detect_block_conflicts\<close> and \<^verbatim>\<open>decide_precedence\<close> from the
  module \<^verbatim>\<open>rail_decision_engine\<close>, which is not among the sources.  The definitions of
  this section follow the specification's description of the two operations.
\<close>

type_synonym occupant = "string \<times> real \<times> real"
type_synonym conflict = "string \<times> string \<times> string \<times> (real \<times> real)"

text \<open>Modelled from the spec: the index of \<^verbatim>\<open>detect_block_conflicts\<close> (module
  \<^verbatim>\<open>rail_decision_engine\<close> is missing), "block_id to list of (train_id, start, end) by
  flattening every train's occupancies", in the order the trains were provided.\<close>

definition flatten_occupancies :: "SimTrain list \<Rightarrow> (string \<times> occupant) list" where
  "flatten_occupancies trains =
     concat (map (\<lambda>t. map (\<lambda>oc. (block_id oc, (train_id t, start_time oc, end_time oc)))
                          (occupancies t)) trains)"

definition index_get :: "(string \<times> occupant list) list \<Rightarrow> string \<Rightarrow> occupant list" where
  "index_get idx b = (case map_of idx b of None \<Rightarrow> [] | Some xs \<Rightarrow> xs)"

definition block_index :: "SimTrain list \<Rightarrow> (string \<times> occupant list) list" where
  "block_index trains =
     fold (\<lambda>(b, x) idx. AList.update b (index_get idx b @ [x]) idx)
       (flatten_occupancies trains) []"

text \<open>Modelled from the spec: "every unordered pair of occupants on that block" of the
  missing \<^verbatim>\<open>detect_block_conflicts\<close>, each pair once, in ascending positions.\<close>

fun pairs :: "'a list \<Rightarrow> ('a \<times> 'a) list" where
  "pairs [] = []"
| "pairs (x # xs) = map (Pair x) xs @ pairs xs"

text \<open>Modelled from the spec: the overlap test of the missing \<^verbatim>\<open>detect_block_conflicts\<close>,
  "an overlap exists iff max(startA,startB) < min(endA,endB)", with the window
  \<open>(max, min)\<close>; a train is not paired with itself.\<close>

fun overlap :: "string \<Rightarrow> occupant \<times> occupant \<Rightarrow> conflict list" where
  "overlap blk ((a, sa, ea), (b, sb, eb)) =
     (if a \<noteq> b \<and> max sa sb < min ea eb then [(blk, a, b, (max sa sb, min ea eb))] else [])"

text \<open>Modelled from the spec: \<^verbatim>\<open>detect_block_conflicts\<close> of the missing module
  \<^verbatim>\<open>rail_decision_engine\<close>: "for each block with at least 2 occupants, compare every
  unordered pair of occupants on that block", with the output
  \<open>(block_id, train_a, train_b, (overlap_start, overlap_end))\<close>.\<close>

definition detect_block_conflicts :: "SimTrain list \<Rightarrow> conflict list" where
  "detect_block_conflicts trains =
     concat (map (\<lambda>(blk, occs). if length occs \<ge> 2 then concat (map (overlap blk) (pairs occs))
                                 else [])
               (block_index trains))"








subsection \<open>The calls in \<^verbatim>\<open>analyze_scenario\<close>\<close>




section \<open>Notions used in the statements\<close>

text \<open>Both endpoints of a section are codes of the station map.\<close>

definition endpoints_known :: "stations \<Rightarrow> Section \<Rightarrow> bool" where
  "endpoints_known sts s = (from_code s \<in> fst ` set sts \<and> to_code s \<in> fst ` set sts)"

text \<open>The angle at the centre of the sphere between two points given in degrees, by the
  spherical law of cosines; the great-circle distance is the radius times this angle.\<close>

definition central_angle :: "real \<Rightarrow> real \<Rightarrow> real \<Rightarrow> real \<Rightarrow> real" where
  "central_angle lat1 lon1 lat2 lon2 =
     arccos (sin (lat1 * pi / 180) * sin (lat2 * pi / 180)
             + cos (lat1 * pi / 180) * cos (lat2 * pi / 180) * cos ((lon2 - lon1) * pi / 180))"

text \<open>\<^verbatim>\<open>haversine_km\<close> returns for every two coordinate-bearing stations of different
  codes: neither square root is taken of a negative number.\<close>

definition haversine_defined :: "rounding \<Rightarrow> stations \<Rightarrow> bool" where
  "haversine_defined rd sts =
     (\<forall>(c, st) \<in> set sts. \<forall>(oc, ot) \<in> set sts. \<forall>la lo ola olo.
        c \<noteq> oc \<and> lat st = Some la \<and> lon st = Some lo \<and> lat ot = Some ola \<and> lon ot = Some olo
          \<longrightarrow> (\<exists>d. haversine_km rd la lo ola olo = Inr d))"






text \<open>Every hop of a path is an edge of the name graph.\<close>

fun walk :: "name_graph \<Rightarrow> string list \<Rightarrow> bool" where
  "walk g (u # v # rest) = (v \<in> set (graph_get g u) \<and> walk g (v # rest))"
| "walk g path = True"

text \<open>The sections that join the name \<open>u\<close> to the name \<open>v\<close>, in the order of the list.\<close>

definition joining :: "Section list \<Rightarrow> string \<Rightarrow> string \<Rightarrow> Section list" where
  "joining secs u v = filter (\<lambda>s. from_name s = u \<and> to_name s = v) secs"

text \<open>The occupants of a block, in the order of the trains and of their occupancies.\<close>

definition occupants :: "SimTrain list \<Rightarrow> string \<Rightarrow> occupant list" where
  "occupants trains blk = map snd (filter (\<lambda>p. fst p = blk) (flatten_occupancies trains))"

section \<open>Example inputs\<close>

text \<open>A real section from Alpha to Beta, and a request for a train between two names.\<close>

definition ex_section :: Section where
  "ex_section = \<lparr>from_code = ''ALP'', from_name = ''Alpha'', to_code = ''BET'', to_name = ''Beta'',
     distance_km = 10, travel_min = 7, leg_type = ''real''\<rparr>"

text \<open>A section from Alpha to Beta of half a minute.\<close>

definition ex_brief :: Section where
  "ex_brief = \<lparr>from_code = ''ALP'', from_name = ''Alpha'', to_code = ''BET'', to_name = ''Beta'',
     distance_km = 1, travel_min = 1 / 2, leg_type = ''real''\<rparr>"

definition ex_request :: "string \<Rightarrow> string \<Rightarrow> string \<Rightarrow> string \<Rightarrow> ScenarioTrain" where
  "ex_request tid prio src dst = \<lparr>req_train_id = tid, req_name = None, train_type = ''Express'',
     priority_level = prio, source = src, destination = dst\<rparr>"

text \<open>The values of \<^verbatim>\<open>float\<close> and \<^verbatim>\<open>int\<close> on the cells of the example tables below;
  every other string stands for an unparsable cell.\<close>

definition ex_float :: "string \<Rightarrow> real option" where
  "ex_float = map_of [(''0'', 0), (''3'', 3), (''5'', 5), (''7'', 7), (''10'', 10),
     (''11'', 11), (''20'', 20), (''21'', 21)]"

definition ex_int :: "string \<Rightarrow> int option" where
  "ex_int = map_of [(''0'', 0), (''2'', 2), (''4'', 4)]"

definition ex_section_row :: row where
  "ex_section_row = [''From Station Code'' \<mapsto> ''ALP'', ''From Station Name'' \<mapsto> ''Alpha'',
     ''To Station Code'' \<mapsto> ''BET'', ''To Station Name'' \<mapsto> ''Beta'',
     ''Distance (km)'' \<mapsto> ''10'', ''Average Travel Time (mins)'' \<mapsto> ''7'']"

definition ex_sih_row :: row where
  "ex_sih_row = [''Station Code'' \<mapsto> ''ALP'', ''Station Name'' \<mapsto> ''Alpha Junction'',
     ''Platform Count'' \<mapsto> ''2'', ''Halt Time (mins)'' \<mapsto> ''5'']"

definition ex_trainsih_row :: row where
  "ex_trainsih_row = [''Station Code'' \<mapsto> ''ALP'', ''Station Name'' \<mapsto> ''Alpha'',
     ''Platform Count'' \<mapsto> ''4'', ''Halt Time (mins)'' \<mapsto> ''3'',
     ''Latitude'' \<mapsto> ''10'', ''Longitude'' \<mapsto> ''20'']"

definition ex_stations :: stations where
  "ex_stations =
     [(''ALP'', \<lparr>code = ''ALP'', name = ''Alpha'', platform_count = 4, halt_min = 3,
                 lat = Some 10, lon = Some 20\<rparr>),
      (''BET'', \<lparr>code = ''BET'', name = ''Beta'', platform_count = 2, halt_min = 5,
                 lat = Some 11, lon = Some 21\<rparr>)]"

definition ex_inferred :: Section where
  "ex_inferred = \<lparr>from_code = ''BET'', from_name = ''Beta'', to_code = ''ALP'', to_name = ''Alpha'',
     distance_km = 6371 * central_angle 11 21 10 20,
     travel_min = 6371 * central_angle 11 21 10 20 / 70 * 60,
     leg_type = ''inferred''\<rparr>"



text \<open>A train with one occupancy, of the block X-Y from \<open>s\<close> to \<open>e\<close>.\<close>

definition ex_train :: "string \<Rightarrow> int \<Rightarrow> real \<Rightarrow> real \<Rightarrow> SimTrain" where
  "ex_train tid prio s e = \<lparr>train_id = tid, category = ''express'', priority = prio,
     planned_path = [''X'', ''Y''],
     occupancies = [\<lparr>block_id = ''X-Y'', start_time = s, end_time = e\<rparr>], delay_minutes = 0\<rparr>"


section \<open>Properties of the analyze-scenario pipeline\<close>

subsection \<open>Occupancy construction\<close>

lemma exact_apply: "exact x = x"
  by (simp add: exact_def)

lemma build_occ_length: "length (build_occ rd tt route c) = length route - 1"
  by (induction rd tt route c rule: build_occ.induct) (simp_all add: Let_def)

lemma build_occ_first:
  "0 < length route - 1 \<Longrightarrow> start_time (build_occ rd tt route c ! 0) = c"
  by (induction rd tt route c rule: build_occ.induct) (simp_all add: Let_def)

lemma build_occ_nth:
  "i < length route - 1 \<Longrightarrow>
   block_id (build_occ rd tt route c ! i) = route ! i @ ''-'' @ route ! Suc i
   \<and> end_time (build_occ rd tt route c ! i)
       = rd (start_time (build_occ rd tt route c ! i) + hop_time tt (route ! i) (route ! Suc i))
   \<and> (Suc i < length route - 1 \<longrightarrow>
        start_time (build_occ rd tt route c ! Suc i) = end_time (build_occ rd tt route c ! i))"
proof (induction rd tt route c arbitrary: i rule: build_occ.induct)
  case (1 rd tt u v rest current)
  show ?case
  proof (cases i)
    case 0
    have "start_time (build_occ rd tt (v # rest) (rd (current + hop_time tt u v)) ! 0)
        = rd (current + hop_time tt u v)" if "0 < length (v # rest) - 1"
      using that by (rule build_occ_first)
    with 0 show ?thesis by (simp add: Let_def)
  next
    case (Suc k)
    with "1.prems" have k: "k < length (v # rest) - 1" by simp
    from "1.IH" [OF refl k] Suc show ?thesis by (simp add: Let_def)
  qed
qed simp_all

subsection \<open>Routes and the travel-time table\<close>

text \<open>The path that the search returns is a walk of the name graph, and every edge of
  the name graph has an entry in the travel-time table, set by the last section that
  joins the two names.\<close>

lemma walk_snoc:
  "walk g path \<Longrightarrow> path \<noteq> [] \<Longrightarrow> nb \<in> set (graph_get g (last path)) \<Longrightarrow> walk g (path @ [nb])"
  by (induction g path rule: walk.induct) simp_all

lemma walk_nth:
  "walk g path \<Longrightarrow> Suc i < length path \<Longrightarrow> path ! Suc i \<in> set (graph_get g (path ! i))"
proof (induction g path arbitrary: i rule: walk.induct)
  case (1 g u v rest)
  then show ?case by (cases i) simp_all
qed simp_all

lemma visit_fold_queue:
  assumes "fold (visit path) nbs (seen, q) = (seen', q')"
    and "\<forall>e \<in> set q. P e" and "\<forall>nb \<in> set nbs. P (nb, path @ [nb])"
  shows "\<forall>e \<in> set q'. P e"
  using assms
proof (induction nbs arbitrary: seen q)
  case Nil
  then show ?case by simp
next
  case (Cons nb nbs)
  from Cons.prems(3) have rest: "\<forall>nb \<in> set nbs. P (nb, path @ [nb])"
    and here: "P (nb, path @ [nb])" by simp_all
  show ?case
  proof (cases "nb \<in> seen")
    case True
    with Cons.prems(1) have "fold (visit path) nbs (seen, q) = (seen', q')" by simp
    from Cons.IH [OF this Cons.prems(2) rest] show ?thesis .
  next
    case False
    with Cons.prems(1)
    have f: "fold (visit path) nbs (insert nb seen, q @ [(nb, path @ [nb])]) = (seen', q')"
      by simp
    from Cons.prems(2) here have "\<forall>e \<in> set (q @ [(nb, path @ [nb])]). P e" by simp
    from Cons.IH [OF f this rest] show ?thesis .
  qed
qed

lemma bfs_walk:
  "\<forall>e \<in> set q. snd e \<noteq> [] \<and> last (snd e) = fst e \<and> walk g (snd e)
     \<Longrightarrow> walk g (bfs g dst q seen)"
proof (induction g dst q seen rule: bfs.induct)
  case (1 g dst seen)
  show ?case by simp
next
  case (2 g dst node path q seen)
  let ?P = "\<lambda>e. snd e \<noteq> [] \<and> last (snd e) = fst e \<and> walk g (snd e)"
  from "2.prems" have here: "path \<noteq> []" "last path = node" "walk g path"
    and rest: "\<forall>e \<in> set q. ?P e" by simp_all
  show ?case
  proof (cases "node = dst")
    case True
    with here show ?thesis by simp
  next
    case False
    obtain seen' q' where f: "fold (visit path) (graph_get g node) (seen, q) = (seen', q')"
      by (cases "fold (visit path) (graph_get g node) (seen, q)")
    have "\<forall>nb \<in> set (graph_get g node). ?P (nb, path @ [nb])"
      using here by (simp add: walk_snoc)
    from visit_fold_queue [of path "graph_get g node" seen q seen' q' ?P, OF f rest this]
    have inv: "\<forall>e \<in> set q'. ?P e" .
    from "2.IH" [OF False f [symmetric] inv] False f show ?thesis by simp
  qed
qed

lemma shortest_path_walk: "walk g (shortest_path g s d)"
proof (cases "map_of g s")
  case None
  then show ?thesis by (simp add: shortest_path_def)
next
  case (Some nbs)
  have "walk g (bfs g d [(s, [s])] {s})" by (rule bfs_walk) simp
  with Some show ?thesis by (simp add: shortest_path_def)
qed


lemma graph_get_update:
  "graph_get (AList.update k v g) u = (if u = k then v else graph_get g u)"
  by (simp add: graph_get_def update_conv')

lemma index_fold:
  "fold index_section secs (g, tt) = (g', tt') \<Longrightarrow>
     graph_get g' u
       = graph_get g u @ map to_name (filter (\<lambda>s. from_name s = u \<and> u \<noteq> [] \<and> to_name s \<noteq> []) secs)
     \<and> tt' (u, v)
       = (if u = [] \<or> v = [] \<or> joining secs u v = [] then tt (u, v)
          else Some (max 1 (travel_min (last (joining secs u v)))))"
proof (induction secs arbitrary: g tt)
  case Nil
  then show ?case by (simp add: joining_def)
next
  case (Cons sec secs)
  obtain g1 tt1 where step: "index_section sec (g, tt) = (g1, tt1)"
    by (cases "index_section sec (g, tt)")
  with Cons.prems have "fold index_section secs (g1, tt1) = (g', tt')" by simp
  note ih = Cons.IH [OF this]
  have j: "joining (sec # secs) u v
      = (if from_name sec = u \<and> to_name sec = v then sec # joining secs u v
         else joining secs u v)"
    by (simp add: joining_def)
  show ?case
  proof (cases "from_name sec = [] \<or> to_name sec = []")
    case True
    with step have "g1 = g" "tt1 = tt" by (auto simp: Let_def)
    with ih True show ?thesis by (auto simp: j)
  next
    case False
    with step have g1: "g1 = AList.update (from_name sec) (graph_get g (from_name sec) @ [to_name sec]) g"
      and tt1: "tt1 = tt((from_name sec, to_name sec) \<mapsto> max 1 (travel_min sec))"
      by (auto simp: Let_def)
    from ih False show ?thesis
      by (auto simp: j g1 tt1 graph_get_update)
  qed
qed

lemma index_edge:
  assumes "v \<in> set (graph_get (fst (build_name_index secs)) u)"
  shows "joining secs u v \<noteq> []
    \<and> hop_time (snd (build_name_index secs)) u v = max 1 (travel_min (last (joining secs u v)))"
proof -
  obtain g tt where b: "build_name_index secs = (g, tt)" by (cases "build_name_index secs")
  then have f: "fold index_section secs ([], Map.empty) = (g, tt)"
    by (simp add: build_name_index_def)
  from index_fold [OF f, of u v] have
    gg: "graph_get g u = map to_name (filter (\<lambda>s. from_name s = u \<and> u \<noteq> [] \<and> to_name s \<noteq> []) secs)"
    and tv: "tt (u, v) = (if u = [] \<or> v = [] \<or> joining secs u v = [] then None
          else Some (max 1 (travel_min (last (joining secs u v)))))"
    by (simp_all add: graph_get_def)
  from assms b gg obtain s where s: "s \<in> set secs" "from_name s = u" "u \<noteq> []" "to_name s \<noteq> []"
      "to_name s = v"
    by auto
  then have "s \<in> set (joining secs u v)" by (simp add: joining_def)
  then have ne: "joining secs u v \<noteq> []" by auto
  with s tv have "tt (u, v) = Some (max 1 (travel_min (last (joining secs u v))))" by auto
  with ne b show ?thesis by (simp add: hop_time_def)
qed

lemma build_trains_mem:
  "tr \<in> set (build_trains rd g tt reqs) \<Longrightarrow>
     \<exists>t \<in> set reqs. planned_path tr = shortest_path g (source t) (destination t)
        \<and> planned_path tr \<noteq> []
        \<and> occupancies tr = build_occ rd tt (planned_path tr) 0"
  by (induction reqs) (auto simp: Let_def split: if_splits)

subsection \<open>The occupancies of the built trains\<close>

lemma ex_index:
  "build_name_index [ex_section] = ([(''Alpha'', [''Beta''])], [(''Alpha'', ''Beta'') \<mapsto> 7])"
  "build_name_index [ex_brief] = ([(''Alpha'', [''Beta''])], [(''Alpha'', ''Beta'') \<mapsto> 1])"
  by (simp_all add: build_name_index_def ex_section_def ex_brief_def graph_get_def Let_def)

lemma ex_lower: "lower ''Express'' = ''express''"
  by code_simp

lemma ex_routes:
  "shortest_path [(''Alpha'', [''Beta''])] ''Alpha'' ''Beta'' = [''Alpha'', ''Beta'']"
  "shortest_path [(''Alpha'', [''Beta''])] ''Alpha'' ''Alpha'' = [''Alpha'']"
  "shortest_path [(''Alpha'', [''Beta''])] ''Beta'' ''Alpha'' = []"
  "shortest_path [(''Alpha'', [''Beta''])] ''Alpha'' ''Gamma'' = []"
  by (simp_all add: shortest_path_def graph_get_def)

lemma ex_build:
  "build_trains exact [(''Alpha'', [''Beta''])] [(''Alpha'', ''Beta'') \<mapsto> t]
      [ex_request tid ''High'' ''Alpha'' ''Beta'']
     = [\<lparr>train_id = tid, category = ''express'', priority = 5,
          planned_path = [''Alpha'', ''Beta''],
          occupancies = [\<lparr>block_id = ''Alpha-Beta'', start_time = 0, end_time = t\<rparr>],
          delay_minutes = 0\<rparr>]"
  by (simp add: ex_routes ex_request_def pr_map_def ex_lower hop_time_def Let_def exact_apply)

text \<open>
  C3, as stated, fails where it takes the travel time of a hop to be the value of the
  network edge: for the section from Alpha to Beta of half a minute, the train from Alpha
  to Beta occupies the block from 0 to 1.
\<close>

theorem occupancy_construction_counterexample:
  "map occupancies
     (build_trains exact (fst (build_name_index [ex_brief])) (snd (build_name_index [ex_brief]))
        [ex_request ''T1'' ''High'' ''Alpha'' ''Beta''])
     = [[\<lparr>block_id = ''Alpha-Beta'', start_time = 0, end_time = 1\<rparr>]]
   \<and> from_name ex_brief = ''Alpha'' \<and> to_name ex_brief = ''Beta''
   \<and> travel_min ex_brief = 1 / 2
   \<and> (0::real) + travel_min ex_brief \<noteq> 1"
proof -
  have "map occupancies
     (build_trains exact (fst (build_name_index [ex_brief])) (snd (build_name_index [ex_brief]))
        [ex_request ''T1'' ''High'' ''Alpha'' ''Beta''])
     = [[\<lparr>block_id = ''Alpha-Beta'', start_time = 0, end_time = 1\<rparr>]]"
    by (simp del: build_trains.simps add: ex_index ex_build)
  then show ?thesis by (simp add: ex_brief_def)
qed

text \<open>
  C3, amended.  For every train that the pipeline builds, over the name graph and the
  travel-time table of any section list, the occupancy sequence has \<open>len(path) - 1\<close>
  entries.  The \<open>i\<close>-th entry is on the block named \<open>si-s(i+1)\<close>; the first entry starts
  at 0 and every later entry starts where the entry before it ends (nothing is added in
  between); an entry ends at the float sum of its start and the travel time of its hop.
  Every hop of the path is joined by a section, and its travel time is the value the
  table holds for it: the \<open>travel_min\<close> of the last section joining the two names, raised
  to one minute when it is less.  The default of 5 minutes stands for a hop the table
  lacks, which no path found by the search contains.
\<close>

theorem occupancy_construction:
  assumes "tr \<in> set (build_trains rd (fst (build_name_index secs))
                        (snd (build_name_index secs)) reqs)"
    and "i < length (planned_path tr) - 1"
  shows "length (occupancies tr) = length (planned_path tr) - 1
    \<and> block_id (occupancies tr ! i) = planned_path tr ! i @ ''-'' @ planned_path tr ! Suc i
    \<and> start_time (occupancies tr ! 0) = 0
    \<and> (Suc i < length (planned_path tr) - 1
         \<longrightarrow> start_time (occupancies tr ! Suc i) = end_time (occupancies tr ! i))
    \<and> end_time (occupancies tr ! i)
        = rd (start_time (occupancies tr ! i)
              + hop_time (snd (build_name_index secs)) (planned_path tr ! i)
                  (planned_path tr ! Suc i))
    \<and> joining secs (planned_path tr ! i) (planned_path tr ! Suc i) \<noteq> []
    \<and> hop_time (snd (build_name_index secs)) (planned_path tr ! i) (planned_path tr ! Suc i)
        = max 1 (travel_min (last (joining secs (planned_path tr ! i)
                                     (planned_path tr ! Suc i))))
    \<and> (tt (u, v) = None \<longrightarrow>
         build_occ rd tt [u, v] c
           = [\<lparr>block_id = u @ ''-'' @ v, start_time = c, end_time = rd (c + 5)\<rparr>])"
proof -
  let ?g = "fst (build_name_index secs)" and ?tt = "snd (build_name_index secs)"
  let ?p = "planned_path tr"
  from build_trains_mem [OF assms(1)] obtain t where "t \<in> set reqs"
    and t: "?p = shortest_path ?g (source t) (destination t) \<and> ?p \<noteq> []
      \<and> occupancies tr = build_occ rd ?tt ?p 0" ..
  from t have p: "?p = shortest_path ?g (source t) (destination t)" by (rule conjunct1)
  from t have occ: "occupancies tr = build_occ rd ?tt ?p 0" by simp
  from assms(2) have pos: "0 < length ?p - 1" and suc: "Suc i < length ?p" by simp_all
  have "walk ?g ?p" unfolding p by (rule shortest_path_walk)
  from walk_nth [OF this suc] have "?p ! Suc i \<in> set (graph_get ?g (?p ! i))" .
  from index_edge [OF this]
  have edge: "joining secs (?p ! i) (?p ! Suc i) \<noteq> []"
    "hop_time ?tt (?p ! i) (?p ! Suc i)
       = max 1 (travel_min (last (joining secs (?p ! i) (?p ! Suc i))))"
    by simp_all
  have len: "length (occupancies tr) = length ?p - 1"
    unfolding occ by (rule build_occ_length)
  have first: "start_time (occupancies tr ! 0) = 0"
    unfolding occ using pos by (rule build_occ_first)
  from build_occ_nth [OF assms(2), of rd ?tt 0]
  have nth: "block_id (occupancies tr ! i) = ?p ! i @ ''-'' @ ?p ! Suc i"
    "end_time (occupancies tr ! i)
       = rd (start_time (occupancies tr ! i) + hop_time ?tt (?p ! i) (?p ! Suc i))"
    "Suc i < length ?p - 1
       \<longrightarrow> start_time (occupancies tr ! Suc i) = end_time (occupancies tr ! i)"
    unfolding occ by simp_all
  have dflt: "tt (u, v) = None \<longrightarrow>
      build_occ rd tt [u, v] c
        = [\<lparr>block_id = u @ ''-'' @ v, start_time = c, end_time = rd (c + 5)\<rparr>]"
    by (simp add: hop_time_def Let_def)
  from len nth(1) first nth(3) nth(2) edge dflt show ?thesis by (intro conjI)
qed

theorem occupancy_construction_witness:
  "\<lparr>train_id = ''T1'', category = ''express'', priority = 5,
      planned_path = [''Alpha'', ''Beta''],
      occupancies = [\<lparr>block_id = ''Alpha-Beta'', start_time = 0, end_time = 7\<rparr>],
      delay_minutes = 0\<rparr>
     \<in> set (build_trains exact (fst (build_name_index [ex_section]))
              (snd (build_name_index [ex_section])) [ex_request ''T1'' ''High'' ''Alpha'' ''Beta''])
   \<and> (0::nat) < length [''Alpha'', ''Beta''] - 1
   \<and> joining [ex_section] ''Alpha'' ''Beta'' = [ex_section]
   \<and> hop_time (snd (build_name_index [ex_section])) ''Alpha'' ''Beta'' = 7
   \<and> max 1 (travel_min ex_section) = 7
   \<and> build_occ exact Map.empty [''Alpha'', ''Beta''] 0
       = [\<lparr>block_id = ''Alpha-Beta'', start_time = 0, end_time = 5\<rparr>]"
proof -
  let ?tr = "\<lparr>train_id = ''T1'', category = ''express'', priority = 5,
      planned_path = [''Alpha'', ''Beta''],
      occupancies = [\<lparr>block_id = ''Alpha-Beta'', start_time = 0, end_time = 7\<rparr>],
      delay_minutes = 0\<rparr>"
  have m: "?tr \<in> set (build_trains exact (fst (build_name_index [ex_section]))
              (snd (build_name_index [ex_section])) [ex_request ''T1'' ''High'' ''Alpha'' ''Beta''])"
    by (simp del: build_trains.simps add: ex_index ex_build)
  have i: "(0::nat) < length (planned_path ?tr) - 1" by simp
  have e: "(0::nat) < length [''Alpha'', ''Beta''] - 1" by simp
  have a: "joining [ex_section] ''Alpha'' ''Beta'' = [ex_section]"
    by (simp add: joining_def ex_section_def)
  have b: "hop_time (snd (build_name_index [ex_section])) ''Alpha'' ''Beta'' = 7"
    by (simp add: ex_index hop_time_def)
  have c: "max 1 (travel_min ex_section) = 7" by (simp add: ex_section_def)
  have d: "build_occ exact Map.empty [''Alpha'', ''Beta''] 0
       = [\<lparr>block_id = ''Alpha-Beta'', start_time = 0, end_time = 5\<rparr>]"
    by (simp add: hop_time_def exact_apply Let_def)
  from m e a b c d
  have "?tr \<in> set (build_trains exact (fst (build_name_index [ex_section]))
              (snd (build_name_index [ex_section])) [ex_request ''T1'' ''High'' ''Alpha'' ''Beta''])
   \<and> (0::nat) < length [''Alpha'', ''Beta''] - 1
   \<and> joining [ex_section] ''Alpha'' ''Beta'' = [ex_section]
   \<and> hop_time (snd (build_name_index [ex_section])) ''Alpha'' ''Beta'' = 7
   \<and> max 1 (travel_min ex_section) = 7
   \<and> build_occ exact Map.empty [''Alpha'', ''Beta''] 0
       = [\<lparr>block_id = ''Alpha-Beta'', start_time = 0, end_time = 5\<rparr>]"
    by (intro conjI)
  from this occupancy_construction [OF m i] show ?thesis by (rule conjunct1 [OF conjI])
qed

subsection \<open>Trains that are built and trains that are passed over\<close>

lemma build_trains_append:
  "build_trains rd g tt (xs @ ys) = build_trains rd g tt xs @ build_trains rd g tt ys"
  by (induction xs) (simp_all add: Let_def)

lemma shortest_path_self: "map_of g s \<noteq> None \<Longrightarrow> shortest_path g s s = [s]"
  by (simp add: shortest_path_def)

text \<open>
  C5, as stated, fails: a request from Alpha to Alpha resolves to the one-station path
  \<open>[Alpha]\<close>, and the train is built (with no occupancy) and handed to the analysis.
\<close>

theorem route_exclusion_counterexample:
  "length (shortest_path (fst (build_name_index [ex_section])) ''Alpha'' ''Alpha'') < 2
   \<and> build_trains exact (fst (build_name_index [ex_section])) (snd (build_name_index [ex_section]))
        [ex_request ''T1'' ''Medium'' ''Alpha'' ''Alpha'']
      = [\<lparr>train_id = ''T1'', category = ''express'', priority = 3, planned_path = [''Alpha''],
           occupancies = [], delay_minutes = 0\<rparr>]"
  by (simp add: ex_index ex_routes ex_request_def pr_map_def ex_lower)

text \<open>
  C5, amended.  A request whose route search returns the empty path is passed over, and
  the trains built from a batch are the trains built from its parts, one request at a
  time, so the other requests are treated as if the request were absent.  A request whose
  source is a node of the graph and equals its destination resolves to a one-station path
  and is kept, with an empty occupancy list.
\<close>

theorem route_exclusion:
  "(shortest_path g (source t) (destination t) = []
      \<longrightarrow> build_trains rd g tt (xs @ t # ys) = build_trains rd g tt (xs @ ys))
   \<and> build_trains rd g tt (xs @ t # ys)
       = build_trains rd g tt xs @ build_trains rd g tt [t] @ build_trains rd g tt ys
   \<and> (map_of g (source t) \<noteq> None \<and> destination t = source t
      \<longrightarrow> build_trains rd g tt [t]
          = [\<lparr>train_id = req_train_id t, category = lower (train_type t),
               priority = pr_map (priority_level t), planned_path = [source t],
               occupancies = [], delay_minutes = 0\<rparr>])"
proof -
  have split: "build_trains rd g tt (xs @ t # ys)
      = build_trains rd g tt xs @ build_trains rd g tt [t] @ build_trains rd g tt ys"
    using build_trains_append [of rd g tt xs "[t] @ ys"] build_trains_append [of rd g tt "[t]" ys]
    by simp
  have "build_trains rd g tt [t] = []" if "shortest_path g (source t) (destination t) = []"
    using that by simp
  with split have skip: "shortest_path g (source t) (destination t) = []
      \<longrightarrow> build_trains rd g tt (xs @ t # ys) = build_trains rd g tt (xs @ ys)"
    by (simp add: build_trains_append)
  have keep: "map_of g (source t) \<noteq> None \<and> destination t = source t
      \<longrightarrow> build_trains rd g tt [t]
          = [\<lparr>train_id = req_train_id t, category = lower (train_type t),
               priority = pr_map (priority_level t), planned_path = [source t],
               occupancies = [], delay_minutes = 0\<rparr>]"
    by (simp add: shortest_path_self)
  from skip split keep show ?thesis by blast
qed

theorem route_exclusion_witness:
  "shortest_path [(''Alpha'', [''Beta''])] ''Beta'' ''Alpha'' = []
   \<and> build_trains exact [(''Alpha'', [''Beta''])] [(''Alpha'', ''Beta'') \<mapsto> 7]
        ([ex_request ''T1'' ''High'' ''Alpha'' ''Beta'']
           @ ex_request ''T2'' ''Low'' ''Beta'' ''Alpha'' # [ex_request ''T3'' ''Low'' ''Alpha'' ''Beta''])
      = build_trains exact [(''Alpha'', [''Beta''])] [(''Alpha'', ''Beta'') \<mapsto> 7]
        ([ex_request ''T1'' ''High'' ''Alpha'' ''Beta''] @ [ex_request ''T3'' ''Low'' ''Alpha'' ''Beta''])
   \<and> map_of [(''Alpha'', [''Beta''])] ''Alpha'' \<noteq> None
   \<and> build_trains exact [(''Alpha'', [''Beta''])] [(''Alpha'', ''Beta'') \<mapsto> 7]
        [ex_request ''T4'' ''Low'' ''Alpha'' ''Alpha'']
      = [\<lparr>train_id = ''T4'', category = ''express'', priority = 1, planned_path = [''Alpha''],
           occupancies = [], delay_minutes = 0\<rparr>]"
proof -
  have "shortest_path [(''Alpha'', [''Beta''])] ''Beta'' ''Alpha'' = []
   \<and> build_trains exact [(''Alpha'', [''Beta''])] [(''Alpha'', ''Beta'') \<mapsto> 7]
        ([ex_request ''T1'' ''High'' ''Alpha'' ''Beta'']
           @ ex_request ''T2'' ''Low'' ''Beta'' ''Alpha'' # [ex_request ''T3'' ''Low'' ''Alpha'' ''Beta''])
      = build_trains exact [(''Alpha'', [''Beta''])] [(''Alpha'', ''Beta'') \<mapsto> 7]
        ([ex_request ''T1'' ''High'' ''Alpha'' ''Beta''] @ [ex_request ''T3'' ''Low'' ''Alpha'' ''Beta''])
   \<and> map_of [(''Alpha'', [''Beta''])] ''Alpha'' \<noteq> None
   \<and> build_trains exact [(''Alpha'', [''Beta''])] [(''Alpha'', ''Beta'') \<mapsto> 7]
        [ex_request ''T4'' ''Low'' ''Alpha'' ''Alpha'']
      = [\<lparr>train_id = ''T4'', category = ''express'', priority = 1, planned_path = [''Alpha''],
           occupancies = [], delay_minutes = 0\<rparr>]"
    by (simp add: ex_routes ex_request_def pr_map_def ex_lower hop_time_def Let_def exact_apply)
  from this
    route_exclusion [where g = "[(''Alpha'', [''Beta''])]"
      and t = "ex_request ''T2'' ''Low'' ''Beta'' ''Alpha''" and rd = exact
      and tt = "[(''Alpha'', ''Beta'') \<mapsto> 7]"
      and xs = "[ex_request ''T1'' ''High'' ''Alpha'' ''Beta'']"
      and ys = "[ex_request ''T3'' ''Low'' ''Alpha'' ''Beta'']"]
    route_exclusion [where g = "[(''Alpha'', [''Beta''])]"
      and t = "ex_request ''T4'' ''Low'' ''Alpha'' ''Alpha''" and rd = exact
      and tt = "[(''Alpha'', ''Beta'') \<mapsto> 7]" and xs = "[]" and ys = "[]"]
  show ?thesis by (rule conjunct1 [OF conjI [OF _ conjI]])
qed

subsection \<open>Delay of the built trains\<close>

lemma build_trains_delay: "tr \<in> set (build_trains rd g tt reqs) \<Longrightarrow> delay_minutes tr = 0"
  by (induction reqs) (auto simp: Let_def split: if_splits)

text \<open>
  C10.  Every train that the pipeline builds has \<open>delay_minutes = 0\<close>, whatever the
  request holds; hence no built train has a greater delay than another, and a comparison
  of delays cannot separate two of them.
\<close>

theorem built_trains_delay_zero:
  "(\<forall>tr \<in> set (build_trains rd g tt reqs). delay_minutes tr = 0)
   \<and> (\<forall>x \<in> set (build_trains rd g tt reqs). \<forall>y \<in> set (build_trains rd g tt reqs).
         \<not> delay_minutes x > delay_minutes y)"
proof -
  have zero: "\<forall>tr \<in> set (build_trains rd g tt reqs). delay_minutes tr = 0"
    by (blast dest: build_trains_delay)
  then have "\<forall>x \<in> set (build_trains rd g tt reqs). \<forall>y \<in> set (build_trains rd g tt reqs).
      \<not> delay_minutes x > delay_minutes y"
    by simp
  with zero show ?thesis by blast
qed

theorem built_trains_delay_zero_witness:
  "build_trains exact [(''Alpha'', [''Beta''])] [(''Alpha'', ''Beta'') \<mapsto> 7]
      [ex_request ''T1'' ''High'' ''Alpha'' ''Beta'', ex_request ''T2'' ''High'' ''Alpha'' ''Beta'']
     = [\<lparr>train_id = ''T1'', category = ''express'', priority = 5,
          planned_path = [''Alpha'', ''Beta''],
          occupancies = [\<lparr>block_id = ''Alpha-Beta'', start_time = 0, end_time = 7\<rparr>],
          delay_minutes = 0\<rparr>,
        \<lparr>train_id = ''T2'', category = ''express'', priority = 5,
          planned_path = [''Alpha'', ''Beta''],
          occupancies = [\<lparr>block_id = ''Alpha-Beta'', start_time = 0, end_time = 7\<rparr>],
          delay_minutes = 0\<rparr>]
   \<and> list_all (\<lambda>tr. delay_minutes tr = 0)
        (build_trains exact [(''Alpha'', [''Beta''])] [(''Alpha'', ''Beta'') \<mapsto> 7]
          [ex_request ''T1'' ''High'' ''Alpha'' ''Beta'', ex_request ''T2'' ''High'' ''Alpha'' ''Beta''])"
  using built_trains_delay_zero [where rd = exact and g = "[(''Alpha'', [''Beta''])]"
      and tt = "[(''Alpha'', ''Beta'') \<mapsto> 7]"
      and reqs = "[ex_request ''T1'' ''High'' ''Alpha'' ''Beta'',
                   ex_request ''T2'' ''High'' ''Alpha'' ''Beta'']"]
  by (simp add: ex_routes ex_request_def pr_map_def ex_lower hop_time_def Let_def exact_apply)

section \<open>Properties of the network construction\<close>

subsection \<open>The distance that \<^verbatim>\<open>haversine_km\<close> computes\<close>

lemma haversine_sum:
  fixes p q :: real
  shows "(sin ((q - p) / 2))\<^sup>2 + cos p * cos q = (1 + cos (p + q)) / 2"
proof -
  have "2 * ((q - p) / 2) = q - p" by simp
  with cos_double_sin [of "(q - p) / 2"]
  have "cos (q - p) = 1 - 2 * (sin ((q - p) / 2))\<^sup>2" by (simp only:)
  then have "(sin ((q - p) / 2))\<^sup>2 = (1 - cos (q - p)) / 2" by simp
  then show ?thesis by (simp add: cos_diff cos_add field_simps)
qed

lemma haversine_argument:
  fixes p q y :: real
  defines "a \<equiv> (sin ((q - p) / 2))\<^sup>2 + cos p * cos q * (sin (y / 2))\<^sup>2"
  shows "0 \<le> a \<and> a \<le> 1"
proof -
  define s where "s = (sin (y / 2))\<^sup>2"
  define A where "A = (sin ((q - p) / 2))\<^sup>2"
  define B where "B = (1 + cos (p + q)) / 2"
  have s: "0 \<le> s" "s \<le> 1" by (simp_all add: s_def abs_square_le_1)
  have A: "0 \<le> A" "A \<le> 1" by (simp_all add: A_def abs_square_le_1)
  have B: "0 \<le> B" "B \<le> 1"
  proof -
    have "0 \<le> 1 + cos (p + q)" using cos_ge_minus_one [of "p + q"] by linarith
    then show "0 \<le> B" unfolding B_def by simp
    have "1 + cos (p + q) \<le> 2" using cos_le_one [of "p + q"] by linarith
    then show "B \<le> 1" unfolding B_def by simp
  qed
  have AB: "A + cos p * cos q = B" unfolding A_def B_def by (rule haversine_sum)
  have "a = A + cos p * cos q * s" by (simp add: a_def A_def s_def)
  also have "\<dots> = (1 - s) * A + s * (A + cos p * cos q)" by (simp add: algebra_simps)
  also have "\<dots> = (1 - s) * A + s * B" by (simp only: AB)
  finally have a: "a = (1 - s) * A + s * B" .
  have "0 \<le> (1 - s) * A" "0 \<le> s * B" using s A B by simp_all
  then have lo: "0 \<le> a" unfolding a by simp
  have "(1 - s) * A \<le> (1 - s) * 1" using s A by (intro mult_left_mono) simp_all
  moreover have "s * B \<le> s * 1" using s B by (intro mult_left_mono) simp_all
  ultimately have "a \<le> 1" unfolding a by simp
  with lo show ?thesis by simp
qed


lemma atan2_half_angle:
  fixes a :: real
  assumes "0 \<le> a" "a \<le> 1"
  shows "2 * atan2 (sqrt a) (sqrt (1 - a)) = arccos (1 - 2 * a)"
proof -
  define th where "th = atan2 (sqrt a) (sqrt (1 - a))"
  have th: "0 \<le> th \<and> th \<le> pi / 2 \<and> sin th = sqrt a"
  proof (cases "a = 1")
    case True
    then show ?thesis by (simp add: th_def atan2_def)
  next
    case False
    with assms have lt: "0 < 1 - a" by simp
    then have pos: "0 < sqrt (1 - a)" by simp
    define t where "t = sqrt a / sqrt (1 - a)"
    have t0: "0 \<le> t" using assms pos by (simp add: t_def)
    have th_t: "th = arctan t" using pos by (simp add: th_def atan2_def t_def)
    have "t\<^sup>2 = a / (1 - a)" using assms lt by (simp add: t_def power_divide)
    then have "1 + t\<^sup>2 = 1 / (1 - a)" using lt by (simp add: field_simps)
    then have "sqrt (1 + t\<^sup>2) = 1 / sqrt (1 - a)" by (simp add: real_sqrt_divide)
    then have "sin (arctan t) = sqrt a" using pos by (simp add: sin_arctan t_def)
    moreover have "0 \<le> arctan t" using t0 by simp
    moreover have "arctan t \<le> pi / 2" using arctan_ubound [of t] by simp
    ultimately show ?thesis by (simp add: th_t)
  qed
  then have "(sin th)\<^sup>2 = a" using assms by simp
  with cos_double_sin [of th] have "cos (2 * th) = 1 - 2 * a" by simp
  moreover have "0 \<le> 2 * th" "2 * th \<le> pi" using th by simp_all
  ultimately have "arccos (1 - 2 * a) = 2 * th" using arccos_cos [of "2 * th"] by simp
  then show ?thesis by (simp add: th_def)
qed

lemma haversine_cosine:
  fixes p q y :: real
  shows "1 - 2 * ((sin ((q - p) / 2))\<^sup>2 + cos p * cos q * (sin (y / 2))\<^sup>2)
     = sin p * sin q + cos p * cos q * cos y"
proof -
  have "2 * ((q - p) / 2) = q - p" "2 * (y / 2) = y" by simp_all
  with cos_double_sin [of "(q - p) / 2"] cos_double_sin [of "y / 2"]
  have 1: "cos (q - p) = 1 - 2 * (sin ((q - p) / 2))\<^sup>2"
    and 2: "cos y = 1 - 2 * (sin (y / 2))\<^sup>2" by (simp_all only:)
  from 1 have a: "(sin ((q - p) / 2))\<^sup>2 = (1 - cos (q - p)) / 2" by simp
  from 2 have b: "(sin (y / 2))\<^sup>2 = (1 - cos y) / 2" by simp
  show ?thesis unfolding a b by (simp add: cos_diff field_simps)
qed

lemma haversine_exact:
  "haversine_km exact lat1 lon1 lat2 lon2 = Inr (6371 * central_angle lat1 lon1 lat2 lon2)"
proof -
  define p where "p = lat1 * pi / 180"
  define q where "q = lat2 * pi / 180"
  define y where "y = (lon2 - lon1) * pi / 180"
  define a where "a = (sin ((q - p) / 2))\<^sup>2 + cos p * cos q * (sin (y / 2))\<^sup>2"
  have r: "radians exact lat1 = p" "radians exact lat2 = q"
    "radians exact (lat2 - lat1) = q - p" "radians exact (lon2 - lon1) = y"
    by (simp_all add: radians_def exact_apply p_def q_def y_def algebra_simps diff_divide_distrib)
  from haversine_argument [of q p y] have a01: "0 \<le> a" "a \<le> 1" by (simp_all add: a_def)
  have "haversine_km exact lat1 lon1 lat2 lon2
      = Inr (6371 * (2 * atan2 (sqrt a) (sqrt (1 - a))))"
    using a01 by (simp add: haversine_km_def Let_def fl_sqrt_def exact_apply r a_def [symmetric])
  also have "2 * atan2 (sqrt a) (sqrt (1 - a)) = arccos (1 - 2 * a)"
    using a01 by (rule atan2_half_angle)
  also have "1 - 2 * a = sin p * sin q + cos p * cos q * cos y"
    unfolding a_def by (rule haversine_cosine)
  finally show ?thesis by (simp add: central_angle_def p_def q_def y_def)
qed

lemma haversine_exact_defined: "haversine_defined exact sts"
  by (simp add: haversine_defined_def haversine_exact split: prod.splits)


subsection \<open>What one station adds\<close>

lemma map_of_key: "c \<in> fst ` set sts \<Longrightarrow> \<exists>st. map_of (sts :: stations) c = Some st"
proof -
  assume "c \<in> fst ` set sts"
  then have "map_of sts c \<noteq> None" by (simp add: map_of_eq_None_iff)
  then show ?thesis by blast
qed

lemma map_of_fst: "map_of (sts :: stations) c = Some st \<Longrightarrow> c \<in> fst ` set sts"
  by (force dest: map_of_SomeD)

text \<open>The candidates that \<open>distances\<close> returns are other stations of the map.\<close>

lemma distances_codes:
  "distances rd sts c la lo ocs = Inr dl \<Longrightarrow>
     snd ` set dl \<subseteq> set ocs - {c} \<and> snd ` set dl \<subseteq> fst ` set sts"
proof (induction ocs arbitrary: dl)
  case Nil
  then show ?case by auto
next
  case (Cons oc ocs)
  show ?case
  proof (cases "oc = c")
    case True
    with Cons.prems have "distances rd sts c la lo ocs = Inr dl" by simp
    from Cons.IH [OF this] show ?thesis by auto
  next
    case False
    with Cons.prems obtain ot where ot: "map_of sts oc = Some ot"
      by (cases "map_of sts oc") simp_all
    then have mem: "oc \<in> fst ` set sts" by (rule map_of_fst)
    show ?thesis
    proof (cases "\<exists>ola olo. lat ot = Some ola \<and> lon ot = Some olo")
      case False
      with \<open>oc \<noteq> c\<close> ot Cons.prems have "distances rd sts c la lo ocs = Inr dl"
        by (auto split: option.splits)
      from Cons.IH [OF this] show ?thesis by auto
    next
      case True
      then obtain ola olo where co: "lat ot = Some ola" "lon ot = Some olo" by blast
      with \<open>oc \<noteq> c\<close> ot Cons.prems obtain d dl' where
        "distances rd sts c la lo ocs = Inr dl'" and dl: "dl = (d, oc) # dl'"
        by (auto split: sum.splits)
      from Cons.IH [OF this(1)] mem \<open>oc \<noteq> c\<close> show ?thesis by (auto simp: dl)
    qed
  qed
qed

lemma distances_returns:
  assumes "haversine_defined rd sts" "(c, st) \<in> set sts" "lat st = Some la" "lon st = Some lo"
    and "set ocs \<subseteq> fst ` set sts"
  shows "\<exists>dl. distances rd sts c la lo ocs = Inr dl"
  using assms(5)
proof (induction ocs)
  case Nil
  show ?case by simp
next
  case (Cons oc ocs)
  from Cons.prems have sub: "set ocs \<subseteq> fst ` set sts" and mem: "oc \<in> fst ` set sts"
    by simp_all
  from Cons.IH [OF sub] obtain dl where dl: "distances rd sts c la lo ocs = Inr dl" by blast
  from map_of_key [OF mem] obtain ot where ot: "map_of sts oc = Some ot" by blast
  then have ot_mem: "(oc, ot) \<in> set sts" by (rule map_of_SomeD)
  show ?case
  proof (cases "oc = c")
    case True
    with dl show ?thesis by simp
  next
    case False
    show ?thesis
    proof (cases "\<exists>ola olo. lat ot = Some ola \<and> lon ot = Some olo")
      case False
      with \<open>oc \<noteq> c\<close> ot dl show ?thesis by (auto split: option.splits)
    next
      case True
      then obtain ola olo where co: "lat ot = Some ola" "lon ot = Some olo" by blast
      from assms(1) assms(2) ot_mem have "\<forall>la lo ola olo.
          c \<noteq> oc \<and> lat st = Some la \<and> lon st = Some lo \<and> lat ot = Some ola \<and> lon ot = Some olo
            \<longrightarrow> (\<exists>d. haversine_km rd la lo ola olo = Inr d)"
        unfolding haversine_defined_def by fast
      with assms(3,4) co \<open>oc \<noteq> c\<close> obtain d where "haversine_km rd la lo ola olo = Inr d"
        by blast
      with \<open>oc \<noteq> c\<close> ot co dl show ?thesis by simp
    qed
  qed
qed

text \<open>What the inner loop does to \<^verbatim>\<open>existing\<close> and \<^verbatim>\<open>result\<close>.\<close>

lemma connect_adds:
  "connect rd sts c k speed dl added (ex, res) = Inr out \<Longrightarrow>
     \<exists>app. out = (ex \<union> directed_pair ` set app, res @ app)
       \<and> (\<forall>s \<in> set app. leg_type s = ''inferred'' \<and> from_code s = c
              \<and> c \<in> fst ` set sts \<and> to_code s \<in> snd ` set dl \<and> to_code s \<in> fst ` set sts)
       \<and> distinct (map directed_pair app)
       \<and> directed_pair ` set app \<inter> ex = {}
       \<and> int (length app) \<le> max 0 (k - added)"
proof (induction dl arbitrary: added ex res)
  case Nil
  then have "out = (ex \<union> directed_pair ` set [], res @ [])" by simp
  then show ?case by fastforce
next
  case (Cons p dl)
  obtain d oc where p: "p = (d, oc)" by (cases p)
  consider (full) "added \<ge> k" | (known) "added < k" "(c, oc) \<in> ex"
    | (new) "added < k" "(c, oc) \<notin> ex"
    by linarith
  then show ?case
  proof cases
    case full
    with Cons.prems have "out = (ex \<union> directed_pair ` set [], res @ [])" by (simp add: p)
    then show ?thesis by fastforce
  next
    case known
    with Cons.prems have "connect rd sts c k speed dl added (ex, res) = Inr out"
      by (simp add: p)
    from Cons.IH [OF this] obtain app where
      app: "out = (ex \<union> directed_pair ` set app, res @ app)"
        "\<forall>s \<in> set app. leg_type s = ''inferred'' \<and> from_code s = c
            \<and> c \<in> fst ` set sts \<and> to_code s \<in> snd ` set dl \<and> to_code s \<in> fst ` set sts"
        "distinct (map directed_pair app)" "directed_pair ` set app \<inter> ex = {}"
        "int (length app) \<le> max 0 (k - added)"
      by blast
    then show ?thesis by (intro exI [of _ app]) auto
  next
    case new
    from new Cons.prems have sp: "speed \<noteq> 0"
      by (auto simp: p fl_div_def split: if_splits)
    from new Cons.prems sp obtain st where st: "map_of sts c = Some st"
      by (cases "map_of sts c") (simp_all add: p fl_div_def)
    from new Cons.prems sp st obtain ot where ot: "map_of sts oc = Some ot"
      by (cases "map_of sts oc") (simp_all add: p fl_div_def)
    define s0 where "s0 = \<lparr>from_code = c, from_name = name st, to_code = oc,
        to_name = name ot, distance_km = d, travel_min = rd (rd (d / speed) * 60),
        leg_type = ''inferred''\<rparr>"
    have dp0: "directed_pair s0 = (c, oc)" by (simp add: s0_def directed_pair_def)
    from new Cons.prems sp st ot
    have "connect rd sts c k speed dl (added + 1) (insert (c, oc) ex, res @ [s0]) = Inr out"
      by (simp add: p fl_div_def s0_def)
    from Cons.IH [OF this] obtain app where
      app: "out = (insert (c, oc) ex \<union> directed_pair ` set app, (res @ [s0]) @ app)"
        "\<forall>s \<in> set app. leg_type s = ''inferred'' \<and> from_code s = c
            \<and> c \<in> fst ` set sts \<and> to_code s \<in> snd ` set dl \<and> to_code s \<in> fst ` set sts"
        "distinct (map directed_pair app)" "directed_pair ` set app \<inter> insert (c, oc) ex = {}"
        "int (length app) \<le> max 0 (k - (added + 1))"
      by blast
    from app(1) have 1: "out = (ex \<union> directed_pair ` set (s0 # app), res @ (s0 # app))"
      by (simp add: dp0)
    have 2: "\<forall>s \<in> set (s0 # app). leg_type s = ''inferred'' \<and> from_code s = c
        \<and> c \<in> fst ` set sts \<and> to_code s \<in> snd ` set (p # dl) \<and> to_code s \<in> fst ` set sts"
      using app(2) map_of_fst [OF st] map_of_fst [OF ot] by (auto simp: s0_def p)
    have 3: "distinct (map directed_pair (s0 # app))"
      using app(3,4) dp0 by auto
    have 4: "directed_pair ` set (s0 # app) \<inter> ex = {}"
      using app(4) new(2) dp0 by auto
    have 5: "int (length (s0 # app)) \<le> max 0 (k - added)"
      using app(5) new(1) by simp
    from 1 2 3 4 5 show ?thesis by blast
  qed
qed

lemma connect_returns:
  assumes "speed \<noteq> 0" "map_of sts c = Some st" "snd ` set dl \<subseteq> fst ` set sts"
  shows "\<exists>out. connect rd sts c k speed dl added (ex, res) = Inr out"
  using assms(3)
proof (induction dl arbitrary: added ex res)
  case Nil
  show ?case by simp
next
  case (Cons p dl)
  obtain d oc where p: "p = (d, oc)" by (cases p)
  from Cons.prems p have sub: "snd ` set dl \<subseteq> fst ` set sts" and mem: "oc \<in> fst ` set sts"
    by simp_all
  from map_of_key [OF mem] obtain ot where ot: "map_of sts oc = Some ot" by blast
  note ih = Cons.IH [OF sub]
  consider (full) "added \<ge> k" | (known) "added < k" "(c, oc) \<in> ex"
    | (new) "added < k" "(c, oc) \<notin> ex"
    by linarith
  then show ?case
  proof cases
    case full
    then show ?thesis by (simp add: p)
  next
    case known
    with ih [of added ex res] show ?thesis by (simp add: p)
  next
    case new
    with assms(1,2) ot ih [of "added + 1" "insert (c, oc) ex"] show ?thesis
      by (simp add: p fl_div_def)
  qed
qed


lemma augment_station_adds:
  assumes "augment_station rd sts k speed c (ex, res) = Inr out"
  shows "\<exists>app. out = (ex \<union> directed_pair ` set app, res @ app)
           \<and> (\<forall>s \<in> set app. leg_type s = ''inferred'' \<and> from_code s = c
                  \<and> from_code s \<in> fst ` set sts \<and> to_code s \<in> fst ` set sts
                  \<and> to_code s \<noteq> c)
           \<and> distinct (map directed_pair app)
           \<and> directed_pair ` set app \<inter> ex = {}
           \<and> int (length app) \<le> max 0 k"
proof -
  from assms obtain st where st: "map_of sts c = Some st"
    by (cases "map_of sts c") (simp_all add: augment_station_def)
  have none: ?thesis if "out = (ex, res)"
  proof -
    from that have "out = (ex \<union> directed_pair ` set [], res @ [])" by simp
    then show ?thesis by fastforce
  qed
  show ?thesis
  proof (cases "\<exists>la lo. lat st = Some la \<and> lon st = Some lo")
    case False
    with st assms have "out = (ex, res)"
      by (auto simp: augment_station_def split: option.splits)
    then show ?thesis by (rule none)
  next
    case True
    then obtain la lo where co: "lat st = Some la" "lon st = Some lo" by blast
    with st assms obtain dl where
      dl: "distances rd sts c la lo (map fst sts) = Inr dl"
      and con: "connect rd sts c k speed (sort_key fst dl) 0 (ex, res) = Inr out"
      by (auto simp: augment_station_def split: sum.splits)
    from distances_codes [OF dl] have codes: "snd ` set dl \<subseteq> set (map fst sts) - {c}" by simp
    from connect_adds [OF con] obtain app where
      app: "out = (ex \<union> directed_pair ` set app, res @ app)"
        "\<forall>s \<in> set app. leg_type s = ''inferred'' \<and> from_code s = c
            \<and> c \<in> fst ` set sts \<and> to_code s \<in> snd ` set (sort_key fst dl)
            \<and> to_code s \<in> fst ` set sts"
        "distinct (map directed_pair app)" "directed_pair ` set app \<inter> ex = {}"
        "int (length app) \<le> max 0 (k - 0)"
      by blast
    have 2: "\<forall>s \<in> set app. leg_type s = ''inferred'' \<and> from_code s = c
        \<and> from_code s \<in> fst ` set sts \<and> to_code s \<in> fst ` set sts \<and> to_code s \<noteq> c"
      using app(2) codes by auto
    from app(1) 2 app(3,4,5) show ?thesis by auto
  qed
qed

lemma augment_station_returns:
  assumes "speed \<noteq> 0" "haversine_defined rd sts" "c \<in> fst ` set sts"
  shows "\<exists>out. augment_station rd sts k speed c (ex, res) = Inr out"
proof -
  from map_of_key [OF assms(3)] obtain st where st: "map_of sts c = Some st" by blast
  then have mem: "(c, st) \<in> set sts" by (rule map_of_SomeD)
  show ?thesis
  proof (cases "\<exists>la lo. lat st = Some la \<and> lon st = Some lo")
    case False
    with st show ?thesis by (auto simp: augment_station_def split: option.splits)
  next
    case True
    then obtain la lo where co: "lat st = Some la" "lon st = Some lo" by blast
    have "set (map fst sts) \<subseteq> fst ` set sts" by simp
    from distances_returns [OF assms(2) mem co this] obtain dl where
      dl: "distances rd sts c la lo (map fst sts) = Inr dl" by blast
    from distances_codes [OF dl] have "snd ` set (sort_key fst dl) \<subseteq> fst ` set sts" by simp
    from connect_returns [OF assms(1) st this, of rd k 0 ex res] obtain out where
      "connect rd sts c k speed (sort_key fst dl) 0 (ex, res) = Inr out" by blast
    with st co dl show ?thesis by (simp add: augment_station_def)
  qed
qed

lemma augment_loop_adds:
  "augment_loop rd sts k speed cs (ex, res) = Inr out \<Longrightarrow>
     \<exists>app. out = (ex \<union> directed_pair ` set app, res @ app)
       \<and> (\<forall>s \<in> set app. leg_type s = ''inferred'' \<and> from_code s \<in> fst ` set sts
              \<and> to_code s \<in> fst ` set sts \<and> to_code s \<noteq> from_code s)
       \<and> distinct (map directed_pair app)
       \<and> directed_pair ` set app \<inter> ex = {}"
proof (induction cs arbitrary: ex res)
  case Nil
  then have "out = (ex \<union> directed_pair ` set [], res @ [])" by simp
  then show ?case by fastforce
next
  case (Cons c cs)
  from Cons.prems obtain mid where
    mid: "augment_station rd sts k speed c (ex, res) = Inr mid"
    and rest: "augment_loop rd sts k speed cs mid = Inr out"
    by (auto split: sum.splits)
  from augment_station_adds [OF mid] obtain a1 where
    a1: "mid = (ex \<union> directed_pair ` set a1, res @ a1)"
      "\<forall>s \<in> set a1. leg_type s = ''inferred'' \<and> from_code s = c
          \<and> from_code s \<in> fst ` set sts \<and> to_code s \<in> fst ` set sts \<and> to_code s \<noteq> c"
      "distinct (map directed_pair a1)" "directed_pair ` set a1 \<inter> ex = {}"
    by blast
  from rest have "augment_loop rd sts k speed cs (ex \<union> directed_pair ` set a1, res @ a1) = Inr out"
    by (simp only: a1(1))
  from Cons.IH [OF this] obtain a2 where
    a2: "out = ((ex \<union> directed_pair ` set a1) \<union> directed_pair ` set a2, (res @ a1) @ a2)"
      "\<forall>s \<in> set a2. leg_type s = ''inferred'' \<and> from_code s \<in> fst ` set sts
          \<and> to_code s \<in> fst ` set sts \<and> to_code s \<noteq> from_code s"
      "distinct (map directed_pair a2)"
      "directed_pair ` set a2 \<inter> (ex \<union> directed_pair ` set a1) = {}"
    by blast
  have 1: "out = (ex \<union> directed_pair ` set (a1 @ a2), res @ (a1 @ a2))"
    using a2(1) by (simp add: image_Un Un_assoc)
  have 2: "\<forall>s \<in> set (a1 @ a2). leg_type s = ''inferred'' \<and> from_code s \<in> fst ` set sts
      \<and> to_code s \<in> fst ` set sts \<and> to_code s \<noteq> from_code s"
    using a1(2) a2(2) by auto
  have 3: "distinct (map directed_pair (a1 @ a2))"
    using a1(3) a2(3,4) by auto
  have 4: "directed_pair ` set (a1 @ a2) \<inter> ex = {}"
    using a1(4) a2(4) by auto
  from 1 2 3 4 show ?case by blast
qed

lemma augment_loop_returns:
  assumes "speed \<noteq> 0" "haversine_defined rd sts" "set cs \<subseteq> fst ` set sts"
  shows "\<exists>out. augment_loop rd sts k speed cs state = Inr out"
  using assms(3)
proof (induction cs arbitrary: state)
  case Nil
  show ?case by simp
next
  case (Cons c cs)
  from Cons.prems have sub: "set cs \<subseteq> fst ` set sts" and mem: "c \<in> fst ` set sts"
    by simp_all
  obtain ex res where state: "state = (ex, res)" by (cases state)
  from augment_station_returns [OF assms(1,2) mem, of k ex res] obtain mid where
    "augment_station rd sts k speed c state = Inr mid" unfolding state by blast
  with Cons.IH [OF sub, of mid] show ?case by simp
qed

lemma augment_adds:
  assumes "augment_sections_with_knn rd sts base k speed = Inr out"
  shows "\<exists>app. out = base @ app
           \<and> (\<forall>s \<in> set app. leg_type s = ''inferred'' \<and> from_code s \<in> fst ` set sts
                  \<and> to_code s \<in> fst ` set sts \<and> to_code s \<noteq> from_code s)
           \<and> distinct (map directed_pair app)
           \<and> directed_pair ` set app \<inter> directed_pair ` set base = {}"
proof -
  from assms obtain ex' where
    "augment_loop rd sts k speed (map fst sts) (set (map directed_pair base), base)
       = Inr (ex', out)"
    by (auto simp: augment_sections_with_knn_def split: sum.splits)
  from augment_loop_adds [OF this] obtain app where
    app: "(ex', out) = (set (map directed_pair base) \<union> directed_pair ` set app, base @ app)"
      "\<forall>s \<in> set app. leg_type s = ''inferred'' \<and> from_code s \<in> fst ` set sts
          \<and> to_code s \<in> fst ` set sts \<and> to_code s \<noteq> from_code s"
      "distinct (map directed_pair app)"
      "directed_pair ` set app \<inter> set (map directed_pair base) = {}"
    by blast
  from app(1) have "out = base @ app" by simp
  with app(2,3,4) show ?thesis by auto
qed

lemma augment_returns:
  assumes "speed \<noteq> 0" "haversine_defined rd sts"
  shows "\<exists>out. augment_sections_with_knn rd sts base k speed = Inr out"
proof -
  have "set (map fst sts) \<subseteq> fst ` set sts" by simp
  from augment_loop_returns [OF assms this, of k "(set (map directed_pair base), base)"]
  obtain out where
    "augment_loop rd sts k speed (map fst sts) (set (map directed_pair base), base) = Inr out"
    by blast
  then show ?thesis by (cases out) (simp add: augment_sections_with_knn_def)
qed

subsection \<open>The examples evaluated\<close>

lemma ex_strip:
  "strip [] = []" "strip ''ALP'' = ''ALP''" "strip ''BET'' = ''BET''"
  "strip ''Alpha'' = ''Alpha''" "strip ''Beta'' = ''Beta''"
  "strip ''Alpha Junction'' = ''Alpha Junction''"
  by code_simp+

lemma ex_load_sections: "load_real_sections ex_float (Some [ex_section_row]) = [ex_section]"
  by (simp add: load_real_sections_def ex_section_row_def ex_section_def cell_or_def ex_strip
      parse_float_def ex_float_def Let_def)

lemma ex_distances:
  "distances exact ex_stations ''ALP'' 10 20 (map fst ex_stations)
     = Inr [(6371 * central_angle 10 20 11 21, ''BET'')]"
  "distances exact ex_stations ''BET'' 11 21 (map fst ex_stations)
     = Inr [(6371 * central_angle 11 21 10 20, ''ALP'')]"
  by (simp_all add: ex_stations_def haversine_exact)

lemma ex_lookup:
  "map_of ex_stations ''ALP'' = Some \<lparr>code = ''ALP'', name = ''Alpha'', platform_count = 4,
      halt_min = 3, lat = Some 10, lon = Some 20\<rparr>"
  "map_of ex_stations ''BET'' = Some \<lparr>code = ''BET'', name = ''Beta'', platform_count = 2,
      halt_min = 5, lat = Some 11, lon = Some 21\<rparr>"
  by (simp_all add: ex_stations_def)

lemma ex_station_steps:
  "(''ALP'', ''BET'') \<in> ex \<Longrightarrow>
     augment_station exact ex_stations 3 70 ''ALP'' (ex, res) = Inr (ex, res)"
  "(''BET'', ''ALP'') \<in> ex \<Longrightarrow>
     augment_station exact ex_stations 3 70 ''BET'' (ex, res) = Inr (ex, res)"
  "(''BET'', ''ALP'') \<notin> ex \<Longrightarrow> augment_station exact ex_stations 3 70 ''BET'' (ex, res)
     = Inr (insert (''BET'', ''ALP'') ex, res @ [ex_inferred])"
  by (simp_all add: augment_station_def ex_distances ex_lookup ex_inferred_def fl_div_def
      exact_apply)

lemma ex_keys: "map fst ex_stations = [''ALP'', ''BET'']"
  by (simp add: ex_stations_def)

lemma ex_keyset: "fst ` set ex_stations = {''ALP'', ''BET''}"
  by (simp add: ex_stations_def)

lemma ex_pairs:
  "directed_pair ex_section = (''ALP'', ''BET'')" "directed_pair ex_inferred = (''BET'', ''ALP'')"
  by (simp_all add: directed_pair_def ex_section_def ex_inferred_def)

lemma ex_codes:
  "from_code ex_section = ''ALP''" "to_code ex_section = ''BET''"
  "from_code ex_inferred = ''BET''" "to_code ex_inferred = ''ALP''"
  by (simp_all add: ex_section_def ex_inferred_def)

lemma ex_augment:
  "augment_sections_with_knn exact ex_stations [ex_section] 3 70 = Inr [ex_section, ex_inferred]"
  "augment_sections_with_knn exact ex_stations [ex_section, ex_inferred] 3 70
     = Inr [ex_section, ex_inferred]"
  by (simp_all add: augment_sections_with_knn_def ex_keys ex_pairs ex_station_steps)

subsection \<open>Augmentation keeps the base sections and adds no pair twice\<close>

text \<open>
  C4.  For every station map and base list, the list that \<open>augment_sections_with_knn\<close>
  returns is the base list followed by appended sections; each appended section is
  \<open>inferred\<close>, and its directed pair is in neither the base list nor an earlier appended
  section.  Hence, when the directed pairs of the base list are pairwise distinct, the
  list returned by augmenting the output once more has pairwise distinct directed pairs.
  Both runs return when the speed is not zero (it is 70 at every call in the sources) and
  \<^verbatim>\<open>haversine_km\<close> returns for the stations of the map, as it does for every map when its
  operations are exact.
\<close>

theorem augmentation_preserves_and_never_duplicates:
  "(\<forall>res. augment_sections_with_knn rd sts base k speed = Inr res \<longrightarrow>
      (\<exists>app. res = base @ app
         \<and> (\<forall>s \<in> set app. leg_type s = ''inferred'')
         \<and> distinct (map directed_pair app)
         \<and> directed_pair ` set app \<inter> directed_pair ` set base = {}
         \<and> (distinct (map directed_pair base) \<longrightarrow>
              (\<forall>again. augment_sections_with_knn rd sts res k speed = Inr again
                 \<longrightarrow> distinct (map directed_pair again)))))
   \<and> (speed \<noteq> 0 \<and> haversine_defined rd sts \<longrightarrow>
        (\<exists>res again. augment_sections_with_knn rd sts base k speed = Inr res
           \<and> augment_sections_with_knn rd sts res k speed = Inr again))
   \<and> haversine_defined exact sts"
proof -
  have 1: "\<exists>app. res = base @ app
         \<and> (\<forall>s \<in> set app. leg_type s = ''inferred'')
         \<and> distinct (map directed_pair app)
         \<and> directed_pair ` set app \<inter> directed_pair ` set base = {}
         \<and> (distinct (map directed_pair base) \<longrightarrow>
              (\<forall>again. augment_sections_with_knn rd sts res k speed = Inr again
                 \<longrightarrow> distinct (map directed_pair again)))"
    if res: "augment_sections_with_knn rd sts base k speed = Inr res" for res
  proof -
    from augment_adds [OF res] obtain app where
      app: "res = base @ app"
        "\<forall>s \<in> set app. leg_type s = ''inferred''"
        "distinct (map directed_pair app)"
        "directed_pair ` set app \<inter> directed_pair ` set base = {}"
      by blast
    have "distinct (map directed_pair again)"
      if d: "distinct (map directed_pair base)"
        and again: "augment_sections_with_knn rd sts res k speed = Inr again" for again
    proof -
      from augment_adds [OF again] obtain app' where
        app': "again = res @ app'" "distinct (map directed_pair app')"
          "directed_pair ` set app' \<inter> directed_pair ` set res = {}"
        by blast
      from d app(3,4) have "distinct (map directed_pair res)" by (auto simp: app(1))
      with app'(2,3) show ?thesis by (auto simp: app'(1))
    qed
    with app show ?thesis by blast
  qed
  have 2: "\<exists>res again. augment_sections_with_knn rd sts base k speed = Inr res
           \<and> augment_sections_with_knn rd sts res k speed = Inr again"
    if "speed \<noteq> 0 \<and> haversine_defined rd sts"
  proof -
    from that have s: "speed \<noteq> 0" and h: "haversine_defined rd sts" by simp_all
    from augment_returns [OF s h, of base k] obtain res where
      res: "augment_sections_with_knn rd sts base k speed = Inr res" by blast
    from augment_returns [OF s h, of res k] obtain again where
      "augment_sections_with_knn rd sts res k speed = Inr again" by blast
    with res show ?thesis by blast
  qed
  have 3: "haversine_defined exact sts" by (rule haversine_exact_defined)
  from 1 2 3 show ?thesis by (intro conjI allI impI)
qed

theorem augmentation_preserves_and_never_duplicates_witness:
  "(70::real) \<noteq> 0 \<and> haversine_defined exact ex_stations
   \<and> augment_sections_with_knn exact ex_stations [ex_section] 3 70
       = Inr ([ex_section] @ [ex_inferred])
   \<and> distinct (map directed_pair [ex_section])
   \<and> augment_sections_with_knn exact ex_stations ([ex_section] @ [ex_inferred]) 3 70
       = Inr [ex_section, ex_inferred]
   \<and> distinct (map directed_pair [ex_section, ex_inferred])"
proof -
  have "(70::real) \<noteq> 0 \<and> haversine_defined exact ex_stations
   \<and> augment_sections_with_knn exact ex_stations [ex_section] 3 70
       = Inr ([ex_section] @ [ex_inferred])
   \<and> distinct (map directed_pair [ex_section])
   \<and> augment_sections_with_knn exact ex_stations ([ex_section] @ [ex_inferred]) 3 70
       = Inr [ex_section, ex_inferred]
   \<and> distinct (map directed_pair [ex_section, ex_inferred])"
    by (simp add: ex_augment ex_pairs haversine_exact_defined)
  from this augmentation_preserves_and_never_duplicates [where rd = exact and sts = ex_stations
      and base = "[ex_section]" and k = 3 and speed = 70]
  show ?thesis by (rule conjunct1 [OF conjI])
qed

subsection \<open>Endpoints and adjacency\<close>

lemma adj_get_update:
  "adj_get (AList.update k v adj) c = (if c = k then v else adj_get adj c)"
  by (simp add: adj_get_def update_conv')

lemma adj_get_fold:
  "adj_get (fold (\<lambda>s adj. AList.update (from_code s)
                     (adj_get adj (from_code s) @ [(to_code s, s)]) adj) secs adj) c
   = adj_get adj c @ map (\<lambda>s. (to_code s, s)) (filter (\<lambda>s. from_code s = c) secs)"
  by (induction secs arbitrary: adj) (simp_all add: adj_get_update)

lemma adj_get_build:
  "adj_get (build_adjacency secs) c
     = map (\<lambda>s. (to_code s, s)) (filter (\<lambda>s. from_code s = c) secs)"
  by (simp add: build_adjacency_def adj_get_fold) (simp add: adj_get_def)

lemma section_rows_codes:
  "\<forall>s \<in> set (section_rows pf rows).
     from_code s \<noteq> [] \<and> to_code s \<noteq> [] \<and> from_code s \<noteq> to_code s \<and> leg_type s = ''real''"
  by (induction rows) (simp_all add: Let_def)

text \<open>
  C6, as stated, fails: with both station tables unavailable and a section table of one
  row from ALP to BET, the pipeline builds a network of no station and one section, whose
  endpoints are not in the station set.
\<close>

theorem network_structure_counterexample:
  "merge_stations ex_float ex_int None None = Inr []
   \<and> load_real_sections ex_float (Some [ex_section_row]) = [ex_section]
   \<and> augment_sections_with_knn exact [] [ex_section] 3 70 = Inr [ex_section]
   \<and> \<not> endpoints_known [] ex_section"
  by (simp add: ex_load_sections merge_stations_def load_sih_stations_def
      load_trainsih_stations_def augment_sections_with_knn_def endpoints_known_def ex_codes)

text \<open>
  C6, amended.  Every section that augmentation appends has both endpoints in the station
  set, so the augmented network has its endpoints in the station set whenever the base
  sections have; augmentation returns when the speed is not zero and \<^verbatim>\<open>haversine_km\<close>
  returns for the stations of the map.  A loaded real section has non-empty, distinct
  endpoint codes; the loader does not compare them with the station set.  An adjacency
  lookup for a code that is the \<open>from_code\<close> of no section yields the empty list.
\<close>

theorem network_structure:
  "(\<forall>res. augment_sections_with_knn rd sts base k speed = Inr res \<longrightarrow>
      (\<exists>app. res = base @ app
         \<and> (\<forall>s \<in> set app. endpoints_known sts s)
         \<and> ((\<forall>s \<in> set base. endpoints_known sts s)
               \<longrightarrow> (\<forall>s \<in> set res. endpoints_known sts s))))
   \<and> (speed \<noteq> 0 \<and> haversine_defined rd sts
        \<longrightarrow> (\<exists>res. augment_sections_with_knn rd sts base k speed = Inr res))
   \<and> (\<forall>s \<in> set (load_real_sections pf path).
         from_code s \<noteq> [] \<and> to_code s \<noteq> [] \<and> from_code s \<noteq> to_code s)
   \<and> (c \<notin> from_code ` set secs \<longrightarrow> adj_get (build_adjacency secs) c = [])"
proof -
  have 1: "\<exists>app. res = base @ app
         \<and> (\<forall>s \<in> set app. endpoints_known sts s)
         \<and> ((\<forall>s \<in> set base. endpoints_known sts s)
               \<longrightarrow> (\<forall>s \<in> set res. endpoints_known sts s))"
    if res: "augment_sections_with_knn rd sts base k speed = Inr res" for res
  proof -
    from augment_adds [OF res] obtain app where
      app: "res = base @ app"
        "\<forall>s \<in> set app. leg_type s = ''inferred'' \<and> from_code s \<in> fst ` set sts
            \<and> to_code s \<in> fst ` set sts \<and> to_code s \<noteq> from_code s"
      by blast
    from app(2) have known: "\<forall>s \<in> set app. endpoints_known sts s"
      by (simp add: endpoints_known_def)
    then have all: "(\<forall>s \<in> set base. endpoints_known sts s)
        \<longrightarrow> (\<forall>s \<in> set res. endpoints_known sts s)"
      by (simp add: app(1) ball_Un)
    from app(1) known all show ?thesis by (intro exI [of _ app] conjI)
  qed
  have 2: "\<exists>res. augment_sections_with_knn rd sts base k speed = Inr res"
    if "speed \<noteq> 0 \<and> haversine_defined rd sts"
  proof -
    from that have s: "speed \<noteq> 0" and h: "haversine_defined rd sts" by simp_all
    from s h show ?thesis by (rule augment_returns)
  qed
  have 3: "\<forall>s \<in> set (load_real_sections pf path).
         from_code s \<noteq> [] \<and> to_code s \<noteq> [] \<and> from_code s \<noteq> to_code s"
  proof (cases path)
    case None
    then show ?thesis by (simp add: load_real_sections_def)
  next
    case (Some rows)
    with section_rows_codes [of pf rows] show ?thesis
      by (simp add: load_real_sections_def)
  qed
  have "filter (\<lambda>s. from_code s = c) secs = []" if "c \<notin> from_code ` set secs"
    using that by (auto simp: filter_empty_conv)
  then have 4: "c \<notin> from_code ` set secs \<longrightarrow> adj_get (build_adjacency secs) c = []"
    by (simp add: adj_get_build)
  from 1 have a: "\<forall>res. augment_sections_with_knn rd sts base k speed = Inr res \<longrightarrow>
      (\<exists>app. res = base @ app
         \<and> (\<forall>s \<in> set app. endpoints_known sts s)
         \<and> ((\<forall>s \<in> set base. endpoints_known sts s)
               \<longrightarrow> (\<forall>s \<in> set res. endpoints_known sts s)))"
    by (intro allI impI)
  from 2 have b: "speed \<noteq> 0 \<and> haversine_defined rd sts
        \<longrightarrow> (\<exists>res. augment_sections_with_knn rd sts base k speed = Inr res)"
    by (intro impI)
  from a b 3 4 show ?thesis by (intro conjI)
qed

theorem network_structure_witness:
  "(70::real) \<noteq> 0 \<and> haversine_defined exact ex_stations
   \<and> augment_sections_with_knn exact ex_stations [ex_section] 3 70
       = Inr ([ex_section] @ [ex_inferred])
   \<and> list_all (endpoints_known ex_stations) [ex_section, ex_inferred]
   \<and> load_real_sections ex_float (Some [ex_section_row]) = [ex_section]
   \<and> ''BET'' \<notin> from_code ` set [ex_section]
   \<and> adj_get (build_adjacency [ex_section]) ''BET'' = []
   \<and> adj_get (build_adjacency [ex_section]) ''ALP'' = [(''BET'', ex_section)]"
proof -
  have "(70::real) \<noteq> 0 \<and> haversine_defined exact ex_stations
   \<and> augment_sections_with_knn exact ex_stations [ex_section] 3 70
       = Inr ([ex_section] @ [ex_inferred])
   \<and> list_all (endpoints_known ex_stations) [ex_section, ex_inferred]
   \<and> load_real_sections ex_float (Some [ex_section_row]) = [ex_section]
   \<and> ''BET'' \<notin> from_code ` set [ex_section]
   \<and> adj_get (build_adjacency [ex_section]) ''BET'' = []
   \<and> adj_get (build_adjacency [ex_section]) ''ALP'' = [(''BET'', ex_section)]"
    by (simp add: ex_augment ex_load_sections adj_get_build endpoints_known_def ex_keyset ex_codes
        haversine_exact_defined)
  from this network_structure [where rd = exact and speed = 70 and sts = ex_stations
      and base = "[ex_section]" and k = 3 and pf = ex_float and path = "Some [ex_section_row]"
      and c = "''BET''" and secs = "[ex_section]"]
  show ?thesis by (rule conjunct1 [OF conjI])
qed

subsection \<open>Which neighbours a station is connected to\<close>

















subsection \<open>Merging the two station tables\<close>

lemma sih_rows_distinct:
  "sih_rows pf pint rows sts = Inr r \<Longrightarrow> distinct (map fst sts) \<Longrightarrow> distinct (map fst r)"
proof (induction rows arbitrary: sts)
  case Nil
  then show ?case by simp
next
  case (Cons row rows)
  show ?case
  proof (cases "platform_of pint row")
    case (Inl e)
    with Cons.prems(1) show ?thesis by (simp add: Let_def)
  next
    case (Inr platform)
    with Cons.prems(1) obtain st c where
      "sih_rows pf pint rows (AList.update c st sts) = Inr r"
      by (simp add: Let_def)
    moreover have "distinct (map fst (AList.update c st sts))"
      using Cons.prems(2) by (rule distinct_update)
    ultimately show ?thesis by (rule Cons.IH)
  qed
qed

lemma trainsih_rows_distinct:
  "trainsih_rows pf pint rows sts = Inr r \<Longrightarrow> distinct (map fst sts) \<Longrightarrow> distinct (map fst r)"
proof (induction rows arbitrary: sts)
  case Nil
  then show ?case by simp
next
  case (Cons row rows)
  show ?case
  proof (cases "platform_of pint row")
    case (Inl e)
    with Cons.prems(1) show ?thesis by (simp add: Let_def)
  next
    case (Inr platform)
    with Cons.prems(1) obtain sts' where
      next_state: "trainsih_rows pf pint rows sts' = Inr r"
      and shape: "sts' = sts \<or> (\<exists>c st. sts' = AList.update c st sts)"
      by (simp add: Let_def split: option.splits if_splits) blast+
    from shape Cons.prems(2) have "distinct (map fst sts')"
      by (auto simp: distinct_update)
    with next_state show ?thesis by (rule Cons.IH)
  qed
qed

lemma load_distinct:
  "load_sih_stations pf pint f = Inr sih \<Longrightarrow> distinct (map fst sih)"
  "load_trainsih_stations pf pint g = Inr trn \<Longrightarrow> distinct (map fst trn)"
proof -
  show "distinct (map fst sih)" if "load_sih_stations pf pint f = Inr sih"
  proof (cases f)
    case None
    with that show ?thesis by (simp add: load_sih_stations_def)
  next
    case (Some rows)
    with that have "sih_rows pf pint rows [] = Inr sih" by (simp add: load_sih_stations_def)
    then show ?thesis by (rule sih_rows_distinct) simp
  qed
  show "distinct (map fst trn)" if "load_trainsih_stations pf pint g = Inr trn"
  proof (cases g)
    case None
    with that show ?thesis by (simp add: load_trainsih_stations_def)
  next
    case (Some rows)
    with that have "trainsih_rows pf pint rows [] = Inr trn"
      by (simp add: load_trainsih_stations_def)
    then show ?thesis by (rule trainsih_rows_distinct) simp
  qed
qed

text \<open>\<^verbatim>\<open>merged.update(trn)\<close> reads like \<^verbatim>\<open>trn\<close>.\<close>

lemma map_of_fold_update:
  "distinct (map fst trn) \<Longrightarrow>
     map_of (fold (\<lambda>(c, st). AList.update c st) trn al) k
       = (case map_of trn k of Some v \<Rightarrow> Some v | None \<Rightarrow> map_of al k)"
proof (induction trn arbitrary: al)
  case Nil
  show ?case by simp
next
  case (Cons p trn)
  obtain c st where p: "p = (c, st)" by (cases p)
  from Cons.prems p have fresh: "c \<notin> fst ` set trn" and rest: "distinct (map fst trn)"
    by simp_all
  from fresh have none: "map_of trn c = None" by (simp add: map_of_eq_None_iff)
  from Cons.IH [OF rest, of "AList.update c st al"] none
  show ?case by (simp add: p update_conv' split: option.splits)
qed

text \<open>The entry that the loop over the SIH stations leaves for a code.\<close>

lemma map_of_fold_merge_sih:
  "distinct (map fst sih) \<Longrightarrow>
     map_of (fold merge_sih sih merged) k
       = (case map_of sih k of
            None \<Rightarrow> map_of merged k
          | Some s \<Rightarrow>
              (case map_of merged k of
                 None \<Rightarrow> Some s
               | Some m \<Rightarrow>
                   Some \<lparr>code = k,
                     name = (if name m \<noteq> [] then name m else name s),
                     platform_count = (if platform_count m \<noteq> 0 then platform_count m
                                       else platform_count s),
                     halt_min = (if halt_min m \<noteq> 0 then halt_min m else halt_min s),
                     lat = lat m, lon = lon m\<rparr>))"
proof (induction sih arbitrary: merged)
  case Nil
  show ?case by simp
next
  case (Cons p sih)
  obtain c st where p: "p = (c, st)" by (cases p)
  from Cons.prems p have fresh: "c \<notin> fst ` set sih" and rest: "distinct (map fst sih)"
    by simp_all
  from fresh have none: "map_of sih c = None" by (simp add: map_of_eq_None_iff)
  show ?case
  proof (cases "k = c")
    case True
    with Cons.IH [OF rest, of "merge_sih (c, st) merged"] none
    show ?thesis by (simp add: p update_conv' split: option.splits)
  next
    case False
    with Cons.IH [OF rest, of "merge_sih (c, st) merged"]
    show ?thesis by (simp add: p update_conv' split: option.splits)
  qed
qed

lemma ex_load_stations:
  "load_sih_stations ex_float ex_int (Some [ex_sih_row])
     = Inr [(''ALP'', \<lparr>code = ''ALP'', name = ''Alpha Junction'', platform_count = 2,
                        halt_min = 5, lat = None, lon = None\<rparr>)]"
  "load_trainsih_stations ex_float ex_int (Some [ex_trainsih_row])
     = Inr [(''ALP'', \<lparr>code = ''ALP'', name = ''Alpha'', platform_count = 4,
                        halt_min = 3, lat = Some 10, lon = Some 20\<rparr>)]"
  by (simp_all add: load_sih_stations_def load_trainsih_stations_def ex_sih_row_def
      ex_trainsih_row_def cell_or_def ex_strip platform_of_def coord_of_def parse_float_def
      ex_float_def ex_int_def Let_def)

text \<open>
  C8, as stated, fails where it says that the primary dataset is preferred: the code ALP
  is in both tables with a name, a platform count and a halt time in each, and the merged
  station carries the three values of the secondary (coordinate-bearing) table.
\<close>

theorem merge_field_preference_counterexample:
  "load_sih_stations ex_float ex_int (Some [ex_sih_row])
     = Inr [(''ALP'', \<lparr>code = ''ALP'', name = ''Alpha Junction'', platform_count = 2,
                        halt_min = 5, lat = None, lon = None\<rparr>)]
   \<and> load_trainsih_stations ex_float ex_int (Some [ex_trainsih_row])
     = Inr [(''ALP'', \<lparr>code = ''ALP'', name = ''Alpha'', platform_count = 4,
                        halt_min = 3, lat = Some 10, lon = Some 20\<rparr>)]
   \<and> merge_stations ex_float ex_int (Some [ex_sih_row]) (Some [ex_trainsih_row])
     = Inr [(''ALP'', \<lparr>code = ''ALP'', name = ''Alpha'', platform_count = 4,
                        halt_min = 3, lat = Some 10, lon = Some 20\<rparr>)]"
  by (simp add: ex_load_stations merge_stations_def)

text \<open>
  C8, amended.  For a station code present in both datasets, the merged station takes its
  coordinates from the secondary (Trainsih) dataset, and each of name, platform count and
  halt time from the secondary dataset when its value is non-empty or non-zero, and from
  the primary (SIH) dataset otherwise.
\<close>

theorem merge_field_preference:
  assumes "load_sih_stations pf pint sih_path = Inr sih"
    and "load_trainsih_stations pf pint trainsih_path = Inr trn"
    and "map_of sih c = Some s" and "map_of trn c = Some m"
  shows "\<exists>merged. merge_stations pf pint sih_path trainsih_path = Inr merged
     \<and> map_of merged c
         = Some \<lparr>code = c,
             name = (if name m \<noteq> [] then name m else name s),
             platform_count = (if platform_count m \<noteq> 0 then platform_count m
                               else platform_count s),
             halt_min = (if halt_min m \<noteq> 0 then halt_min m else halt_min s),
             lat = lat m, lon = lon m\<rparr>"
proof -
  let ?start = "fold (\<lambda>(c, st). AList.update c st) trn []"
  have start: "map_of ?start c = Some m"
    using map_of_fold_update [OF load_distinct(2) [OF assms(2)], of "[]" c] assms(4) by simp
  have "merge_stations pf pint sih_path trainsih_path = Inr (fold merge_sih sih ?start)"
    using assms(1,2) by (simp add: merge_stations_def)
  moreover have "map_of (fold merge_sih sih ?start) c
         = Some \<lparr>code = c,
             name = (if name m \<noteq> [] then name m else name s),
             platform_count = (if platform_count m \<noteq> 0 then platform_count m
                               else platform_count s),
             halt_min = (if halt_min m \<noteq> 0 then halt_min m else halt_min s),
             lat = lat m, lon = lon m\<rparr>"
    using map_of_fold_merge_sih [OF load_distinct(1) [OF assms(1)], of ?start c] assms(3) start
    by simp
  ultimately show ?thesis by blast
qed

theorem merge_field_preference_witness:
  "load_sih_stations ex_float ex_int (Some [ex_sih_row])
     = Inr [(''ALP'', \<lparr>code = ''ALP'', name = ''Alpha Junction'', platform_count = 2,
                        halt_min = 5, lat = None, lon = None\<rparr>)]
   \<and> load_trainsih_stations ex_float ex_int (Some [ex_trainsih_row])
     = Inr [(''ALP'', \<lparr>code = ''ALP'', name = ''Alpha'', platform_count = 4,
                        halt_min = 3, lat = Some 10, lon = Some 20\<rparr>)]
   \<and> map_of [(''ALP'', \<lparr>code = ''ALP'', name = ''Alpha Junction'', platform_count = 2,
                        halt_min = 5, lat = None, lon = None\<rparr>)] ''ALP''
       = Some \<lparr>code = ''ALP'', name = ''Alpha Junction'', platform_count = 2,
                        halt_min = 5, lat = None, lon = None\<rparr>
   \<and> map_of [(''ALP'', \<lparr>code = ''ALP'', name = ''Alpha'', platform_count = 4,
                        halt_min = 3, lat = Some 10, lon = Some 20\<rparr>)] ''ALP''
       = Some \<lparr>code = ''ALP'', name = ''Alpha'', platform_count = 4,
                        halt_min = 3, lat = Some 10, lon = Some 20\<rparr>"
proof -
  have m1: "map_of [(''ALP'', \<lparr>code = ''ALP'', name = ''Alpha Junction'', platform_count = 2,
                        halt_min = 5, lat = None, lon = None\<rparr>)] ''ALP''
       = Some \<lparr>code = ''ALP'', name = ''Alpha Junction'', platform_count = 2,
                        halt_min = 5, lat = None, lon = None\<rparr>"
    by simp
  have m2: "map_of [(''ALP'', \<lparr>code = ''ALP'', name = ''Alpha'', platform_count = 4,
                        halt_min = 3, lat = Some 10, lon = Some 20\<rparr>)] ''ALP''
       = Some \<lparr>code = ''ALP'', name = ''Alpha'', platform_count = 4,
                        halt_min = 3, lat = Some 10, lon = Some 20\<rparr>"
    by simp
  from ex_load_stations(1) ex_load_stations(2) m1 m2
  have "load_sih_stations ex_float ex_int (Some [ex_sih_row])
     = Inr [(''ALP'', \<lparr>code = ''ALP'', name = ''Alpha Junction'', platform_count = 2,
                        halt_min = 5, lat = None, lon = None\<rparr>)]
   \<and> load_trainsih_stations ex_float ex_int (Some [ex_trainsih_row])
     = Inr [(''ALP'', \<lparr>code = ''ALP'', name = ''Alpha'', platform_count = 4,
                        halt_min = 3, lat = Some 10, lon = Some 20\<rparr>)]
   \<and> map_of [(''ALP'', \<lparr>code = ''ALP'', name = ''Alpha Junction'', platform_count = 2,
                        halt_min = 5, lat = None, lon = None\<rparr>)] ''ALP''
       = Some \<lparr>code = ''ALP'', name = ''Alpha Junction'', platform_count = 2,
                        halt_min = 5, lat = None, lon = None\<rparr>
   \<and> map_of [(''ALP'', \<lparr>code = ''ALP'', name = ''Alpha'', platform_count = 4,
                        halt_min = 3, lat = Some 10, lon = Some 20\<rparr>)] ''ALP''
       = Some \<lparr>code = ''ALP'', name = ''Alpha'', platform_count = 4,
                        halt_min = 3, lat = Some 10, lon = Some 20\<rparr>"
    by (intro conjI)
  from this merge_field_preference [OF ex_load_stations(1) ex_load_stations(2) m1 m2]
  show ?thesis by (rule conjunct1 [OF conjI])
qed

subsection \<open>Unavailable source tables\<close>

lemma build_trains_empty_graph: "build_trains rd [] tt reqs = []"
  by (induction reqs) (simp_all add: shortest_path_def)

lemma schedule_routes_empty:
  "schedule_routes rnd [] sts num_trains tcount attempts n = Inr []"
proof (induction rnd "[] :: adjacency" sts num_trains tcount attempts n
    rule: schedule_routes.induct)
  case (1 rnd sts num_trains tcount attempts n)
  have p: "pick_route rnd n [] sts 5 10 = Inr ([], n)" by (simp add: pick_route_def)
  show ?case
  proof (cases "tcount < num_trains \<and> attempts < num_trains * 10")
    case True
    from "1.hyps"(1) [OF True p refl]
    have "schedule_routes rnd [] sts num_trains tcount (attempts + 1) n = Inr []" by simp
    with True p show ?thesis by (subst schedule_routes.simps) simp
  next
    case False
    then have "(tcount < num_trains \<and> attempts < num_trains * 10) = False" by simp
    then show ?thesis by (subst schedule_routes.simps) (simp only: if_False)
  qed
qed

text \<open>
  A station or section table whose path is unavailable loads as the empty collection,
  without an error; \<open>merge_stations\<close> over two unavailable paths returns the empty station
  set, and a merge with one table unavailable reads like the other table.  On the network
  of no section, augmentation of no stations returns, adjacency and name index are empty,
  no train is built and no route is scheduled.
\<close>

lemma unavailable_sources:
  "load_sih_stations pf pint None = Inr []
   \<and> load_trainsih_stations pf pint None = Inr []
   \<and> load_real_sections pf None = []
   \<and> merge_stations pf pint None None = Inr []
   \<and> augment_sections_with_knn rd [] base k speed = Inr base
   \<and> (load_trainsih_stations pf pint g = Inr trn
        \<longrightarrow> (\<exists>merged. merge_stations pf pint None g = Inr merged
               \<and> map_of merged = map_of trn))
   \<and> (load_sih_stations pf pint f = Inr sih
        \<longrightarrow> (\<exists>merged. merge_stations pf pint f None = Inr merged
               \<and> map_of merged = map_of sih))
   \<and> build_adjacency [] = []
   \<and> adj_get (build_adjacency []) c = []
   \<and> build_name_index [] = ([], Map.empty)
   \<and> build_trains rd (fst (build_name_index [])) (snd (build_name_index [])) reqs = []
   \<and> generate_routes rnd sts [] num_trains = Inr []"
proof -
  have 1: "load_sih_stations pf pint None = Inr []" by (simp add: load_sih_stations_def)
  have 2: "load_trainsih_stations pf pint None = Inr []"
    by (simp add: load_trainsih_stations_def)
  have 3: "load_real_sections pf None = []" by (simp add: load_real_sections_def)
  have 4: "merge_stations pf pint None None = Inr []" by (simp add: merge_stations_def 1 2)
  have 5: "augment_sections_with_knn rd [] base k speed = Inr base"
    by (simp add: augment_sections_with_knn_def)
  have 7: "load_trainsih_stations pf pint g = Inr trn
        \<longrightarrow> (\<exists>merged. merge_stations pf pint None g = Inr merged
               \<and> map_of merged = map_of trn)"
  proof
    assume l: "load_trainsih_stations pf pint g = Inr trn"
    have "map_of (fold (\<lambda>(c, st). AList.update c st) trn []) k = map_of trn k" for k
      using map_of_fold_update [OF load_distinct(2) [OF l], of "[]" k]
      by (simp split: option.splits)
    then have "map_of (fold (\<lambda>(c, st). AList.update c st) trn []) = map_of trn" by (rule ext)
    with l show "\<exists>merged. merge_stations pf pint None g = Inr merged
               \<and> map_of merged = map_of trn"
      by (simp add: merge_stations_def 1)
  qed
  have 8: "load_sih_stations pf pint f = Inr sih
        \<longrightarrow> (\<exists>merged. merge_stations pf pint f None = Inr merged
               \<and> map_of merged = map_of sih)"
  proof
    assume l: "load_sih_stations pf pint f = Inr sih"
    have "map_of (fold merge_sih sih []) k = map_of sih k" for k
      using map_of_fold_merge_sih [OF load_distinct(1) [OF l], of "[]" k]
      by (simp split: option.splits)
    then have "map_of (fold merge_sih sih []) = map_of sih" by (rule ext)
    with l show "\<exists>merged. merge_stations pf pint f None = Inr merged
               \<and> map_of merged = map_of sih"
      by (simp add: merge_stations_def 2)
  qed
  have 9: "build_adjacency [] = []" by (simp add: build_adjacency_def)
  have 10: "adj_get (build_adjacency []) c = []" by (simp add: build_adjacency_def adj_get_def)
  have 11: "build_name_index [] = ([], Map.empty)" by (simp add: build_name_index_def)
  have 12: "build_trains rd (fst (build_name_index [])) (snd (build_name_index [])) reqs = []"
    by (simp add: 11 build_trains_empty_graph)
  have 13: "generate_routes rnd sts [] num_trains = Inr []"
    by (simp only: generate_routes_def 9 schedule_routes_empty)
  from 1 2 3 4 5 7 8 9 10 11 12 13 show ?thesis by (intro conjI)
qed

lemma ex_adjacency: "build_adjacency [ex_section] = [(''ALP'', [(''BET'', ex_section)])]"
  by (simp add: build_adjacency_def adj_get_def ex_codes)

text \<open>
  C9 does not hold of the generator on a partly empty network.  With both station tables
  unavailable and a section table of one row from ALP to BET, the loaders, the merge and
  the augmentation return (no station, one section); \<^verbatim>\<open>pick_route\<close> then finds a
  non-empty adjacency, draws a start code from the empty list of station codes, and
  raises \<^verbatim>\<open>IndexError\<close>, whatever the draws; the error ends the first pass of the loop of
  \<^verbatim>\<open>generate_trains_schedule\<close>.
\<close>

theorem missing_stations_route_error:
  "merge_stations ex_float ex_int None None = Inr []
   \<and> load_real_sections ex_float (Some [ex_section_row]) = [ex_section]
   \<and> augment_sections_with_knn rd [] [ex_section] 3 70 = Inr [ex_section]
   \<and> build_adjacency [ex_section] \<noteq> []
   \<and> pick_route rnd n (build_adjacency [ex_section]) [] 5 10 = Inl IndexError
   \<and> generate_routes rnd [] [ex_section] 10 = Inl IndexError"
proof -
  have 1: "merge_stations ex_float ex_int None None = Inr []"
    by (simp add: merge_stations_def load_sih_stations_def load_trainsih_stations_def)
  have 2: "load_real_sections ex_float (Some [ex_section_row]) = [ex_section]"
    by (rule ex_load_sections)
  have 3: "augment_sections_with_knn rd [] [ex_section] 3 70 = Inr [ex_section]"
    by (simp add: augment_sections_with_knn_def)
  have 4: "build_adjacency [ex_section] \<noteq> []" by (simp add: ex_adjacency)
  have 5: "pick_route rnd n (build_adjacency [ex_section]) [] 5 10 = Inl IndexError" for n
    by (simp add: pick_route_def ex_adjacency random_choice_def)
  have 6: "generate_routes rnd [] [ex_section] 10 = Inl IndexError"
    unfolding generate_routes_def by (subst schedule_routes.simps) (simp add: 5)
  from 1 2 3 4 5 6 show ?thesis by (intro conjI)
qed

section \<open>Properties of conflict detection and precedence\<close>

subsection \<open>The block index\<close>

lemma occupants_mem:
  "(a, sa, ea) \<in> set (occupants trains blk) \<longleftrightarrow>
     (\<exists>t \<in> set trains. \<exists>oc \<in> set (occupancies t).
        train_id t = a \<and> block_id oc = blk \<and> start_time oc = sa \<and> end_time oc = ea)"
proof -
  have "(a, sa, ea) \<in> set (occupants trains blk)
      \<longleftrightarrow> (blk, a, sa, ea) \<in> set (flatten_occupancies trains)"
    by (force simp: occupants_def)
  also have "\<dots> \<longleftrightarrow> (\<exists>t \<in> set trains. \<exists>oc \<in> set (occupancies t).
        train_id t = a \<and> block_id oc = blk \<and> start_time oc = sa \<and> end_time oc = ea)"
    by (auto simp: flatten_occupancies_def)
  finally show ?thesis .
qed

lemma index_get_update:
  "index_get (AList.update k v idx) b = (if b = k then v else index_get idx b)"
  by (simp add: index_get_def update_conv')

lemma map_of_index_fold:
  "map_of (fold (\<lambda>(b, x) idx. AList.update b (index_get idx b @ [x]) idx) flat idx) blk
     = (if map snd (filter (\<lambda>p. fst p = blk) flat) = [] then map_of idx blk
        else Some (index_get idx blk @ map snd (filter (\<lambda>p. fst p = blk) flat)))"
proof (induction flat arbitrary: idx)
  case Nil
  show ?case by simp
next
  case (Cons p flat)
  obtain b x where p: "p = (b, x)" by (cases p)
  let ?idx = "AList.update b (index_get idx b @ [x]) idx"
  have step: "fold (\<lambda>(b, x) idx. AList.update b (index_get idx b @ [x]) idx) (p # flat) idx
      = fold (\<lambda>(b, x) idx. AList.update b (index_get idx b @ [x]) idx) flat ?idx"
    by (simp add: p)
  show ?case
  proof (cases "blk = b")
    case True
    have "map_of ?idx blk = Some (index_get idx blk @ [x])"
      by (simp add: True update_conv')
    moreover have "index_get ?idx blk = index_get idx blk @ [x]"
      by (simp add: True index_get_update)
    ultimately show ?thesis
      unfolding step Cons.IH [of ?idx] by (simp add: p True)
  next
    case False
    have "map_of ?idx blk = map_of idx blk"
      using False by (simp add: update_conv')
    moreover have "index_get ?idx blk = index_get idx blk"
      using False by (simp add: index_get_update)
    ultimately show ?thesis
      unfolding step Cons.IH [of ?idx] using False by (simp add: p)
  qed
qed

lemma distinct_index_fold:
  "distinct (map fst idx) \<Longrightarrow>
     distinct (map fst (fold (\<lambda>(b, x) idx. AList.update b (index_get idx b @ [x]) idx) flat idx))"
proof (induction flat arbitrary: idx)
  case Nil
  then show ?case by simp
next
  case (Cons p flat)
  obtain b x where p: "p = (b, x)" by (cases p)
  from Cons.prems have "distinct (map fst (AList.update b (index_get idx b @ [x]) idx))"
    by (rule distinct_update)
  from Cons.IH [OF this] show ?case by (simp add: p)
qed

lemma block_index_entry:
  "(blk, occs) \<in> set (block_index trains) \<longleftrightarrow> occs = occupants trains blk \<and> occs \<noteq> []"
proof -
  have d: "distinct (map fst (block_index trains))"
    unfolding block_index_def by (rule distinct_index_fold) simp
  have m: "map_of (block_index trains) blk
      = (if occupants trains blk = [] then None else Some (occupants trains blk))"
    unfolding block_index_def occupants_def map_of_index_fold
    by (simp add: index_get_def)
  have "(blk, occs) \<in> set (block_index trains) \<longleftrightarrow> map_of (block_index trains) blk = Some occs"
    using d by (simp add: map_of_eq_Some_iff)
  with m show ?thesis by auto
qed

subsection \<open>Pairs of occupants\<close>

lemma pairs_mem: "(x, y) \<in> set (pairs xs) \<Longrightarrow> x \<in> set xs \<and> y \<in> set xs"
  by (induction xs) auto

lemma pairs_cover:
  "x \<in> set xs \<Longrightarrow> y \<in> set xs \<Longrightarrow> x \<noteq> y \<Longrightarrow> (x, y) \<in> set (pairs xs) \<or> (y, x) \<in> set (pairs xs)"
  by (induction xs) auto

lemma pairs_short:
  assumes "length xs < 2"
  shows "pairs xs = []"
proof (cases xs)
  case Nil
  then show ?thesis by simp
next
  case (Cons x ys)
  with assms have "ys = []" by simp
  with Cons show ?thesis by simp
qed

lemma in_concat: "x \<in> set l \<Longrightarrow> l \<in> set ls \<Longrightarrow> x \<in> set (concat ls)"
  by auto

lemma overlap_mem:
  "(blk, a, b, w) \<in> set (overlap blk' ((a', sa, ea), (b', sb, eb))) \<longleftrightarrow>
     blk = blk' \<and> a = a' \<and> b = b' \<and> a \<noteq> b \<and> max sa sb < min ea eb
     \<and> w = (max sa sb, min ea eb)"
  by auto

lemma detect_mem:
  "(blk, a, b, w) \<in> set (detect_block_conflicts trains) \<longleftrightarrow>
     (\<exists>sa ea sb eb. ((a, sa, ea), (b, sb, eb)) \<in> set (pairs (occupants trains blk))
        \<and> a \<noteq> b \<and> max sa sb < min ea eb \<and> w = (max sa sb, min ea eb))"
  (is "?L \<longleftrightarrow> ?R")
proof
  assume ?L
  then obtain blk' occs where e: "(blk', occs) \<in> set (block_index trains)"
    and c: "(blk, a, b, w) \<in> set (if length occs \<ge> 2
          then concat (map (overlap blk') (pairs occs)) else [])"
    by (auto simp: detect_block_conflicts_def)
  from c obtain p where p: "p \<in> set (pairs occs)" "(blk, a, b, w) \<in> set (overlap blk' p)"
    by (auto split: if_splits)
  obtain a' sa ea b' sb eb where shape: "p = ((a', sa, ea), (b', sb, eb))"
    by (metis prod.exhaust)
  from p(2) [unfolded shape]
  have o: "blk = blk'" "a = a'" "b = b'" "a \<noteq> b" "max sa sb < min ea eb"
    "w = (max sa sb, min ea eb)"
    by (simp_all split: if_splits)
  from e have "occs = occupants trains blk'" by (simp add: block_index_entry)
  with p(1) o shape show ?R by auto
next
  assume ?R
  then obtain sa ea sb eb where
    p: "((a, sa, ea), (b, sb, eb)) \<in> set (pairs (occupants trains blk))"
    and o: "a \<noteq> b" "max sa sb < min ea eb" "w = (max sa sb, min ea eb)"
    by blast
  from p have ne: "occupants trains blk \<noteq> []" by auto
  then have e: "(blk, occupants trains blk) \<in> set (block_index trains)"
    by (simp add: block_index_entry)
  have len: "length (occupants trains blk) \<ge> 2"
  proof (rule ccontr)
    assume "\<not> length (occupants trains blk) \<ge> 2"
    then have "pairs (occupants trains blk) = []" by (simp add: pairs_short)
    with p show False by simp
  qed
  from o have "(blk, a, b, w) \<in> set (overlap blk ((a, sa, ea), (b, sb, eb)))"
    by simp
  moreover from p have "overlap blk ((a, sa, ea), (b, sb, eb))
      \<in> set (map (overlap blk) (pairs (occupants trains blk)))"
    by (simp del: overlap.simps)
  ultimately
  have "(blk, a, b, w) \<in> set (concat (map (overlap blk) (pairs (occupants trains blk))))"
    by (rule in_concat)
  with len have "(blk, a, b, w) \<in> set (if length (occupants trains blk) \<ge> 2
      then concat (map (overlap blk) (pairs (occupants trains blk))) else [])"
    by simp
  moreover from e have "(if length (occupants trains blk) \<ge> 2
      then concat (map (overlap blk) (pairs (occupants trains blk))) else [])
      \<in> set (map (\<lambda>(blk, occs). if length occs \<ge> 2
            then concat (map (overlap blk) (pairs occs)) else []) (block_index trains))"
    by force
  ultimately show ?L
    unfolding detect_block_conflicts_def by (rule in_concat)
qed

subsection \<open>The conflict criterion\<close>

lemma ex_detect:
  "detect_block_conflicts [ex_train ''A'' 5 0 10, ex_train ''B'' 1 5 15]
     = [(''X-Y'', ''A'', ''B'', (5, 10))]"
  "detect_block_conflicts [ex_train ''A'' 5 0 10, ex_train ''B'' 1 10 20] = []"
  "detect_block_conflicts [ex_train ''A'' 5 0 10, ex_train ''A'' 5 5 15] = []"
  by (simp_all add: detect_block_conflicts_def block_index_def flatten_occupancies_def
      ex_train_def index_get_def)

text \<open>
  C1.  For two train ids \<open>a\<close> and \<open>b\<close>, a block and a window \<open>w\<close>, the detector reports
  the conflict \<open>(blk, a, b, w)\<close> or \<open>(blk, b, a, w)\<close> exactly when the ids differ, a train
  of id \<open>a\<close> and a train of id \<open>b\<close> each have an occupancy of that block, the later start
  is strictly before the earlier end, and \<open>w\<close> is (later start, earlier end).  Hence
  occupancies that only touch are not reported, no train is paired with itself, and every
  reported window has positive width.
\<close>

theorem conflict_criterion:
  "(((blk, a, b, w) \<in> set (detect_block_conflicts trains)
       \<or> (blk, b, a, w) \<in> set (detect_block_conflicts trains))
     \<longleftrightarrow> (a \<noteq> b
          \<and> (\<exists>ta \<in> set trains. \<exists>tb \<in> set trains.
               \<exists>oa \<in> set (occupancies ta). \<exists>ob \<in> set (occupancies tb).
                 train_id ta = a \<and> train_id tb = b \<and> block_id oa = blk \<and> block_id ob = blk
                 \<and> max (start_time oa) (start_time ob) < min (end_time oa) (end_time ob)
                 \<and> w = (max (start_time oa) (start_time ob), min (end_time oa) (end_time ob)))))
   \<and> (blk, a, a, w) \<notin> set (detect_block_conflicts trains)
   \<and> ((blk, a, b, w) \<in> set (detect_block_conflicts trains) \<longrightarrow> fst w < snd w)"
proof -
  let ?D = "set (detect_block_conflicts trains)"
  let ?occ = "occupants trains blk"
  let ?R = "a \<noteq> b \<and> (\<exists>sa ea sb eb. (a, sa, ea) \<in> set ?occ \<and> (b, sb, eb) \<in> set ?occ
      \<and> max sa sb < min ea eb \<and> w = (max sa sb, min ea eb))"
  have fwd: ?R if "(blk, a, b, w) \<in> ?D \<or> (blk, b, a, w) \<in> ?D"
    using that
  proof
    assume "(blk, a, b, w) \<in> ?D"
    then obtain sa ea sb eb where "((a, sa, ea), (b, sb, eb)) \<in> set (pairs ?occ)"
      "a \<noteq> b" "max sa sb < min ea eb" "w = (max sa sb, min ea eb)"
      unfolding detect_mem by blast
    with pairs_mem [of "(a, sa, ea)" "(b, sb, eb)" ?occ] show ?R by blast
  next
    assume "(blk, b, a, w) \<in> ?D"
    then obtain sb eb sa ea where "((b, sb, eb), (a, sa, ea)) \<in> set (pairs ?occ)"
      "b \<noteq> a" "max sb sa < min eb ea" "w = (max sb sa, min eb ea)"
      unfolding detect_mem by blast
    with pairs_mem [of "(b, sb, eb)" "(a, sa, ea)" ?occ] show ?R
      by (auto simp: max.commute min.commute)
  qed
  have bwd: "(blk, a, b, w) \<in> ?D \<or> (blk, b, a, w) \<in> ?D" if ?R
  proof -
    from that obtain sa ea sb eb where ne: "a \<noteq> b"
      and m: "(a, sa, ea) \<in> set ?occ" "(b, sb, eb) \<in> set ?occ"
      and o: "max sa sb < min ea eb" "w = (max sa sb, min ea eb)"
      by blast
    from ne have "(a, sa, ea) \<noteq> (b, sb, eb)" by simp
    from pairs_cover [OF m this]
    show ?thesis
    proof
      assume "((a, sa, ea), (b, sb, eb)) \<in> set (pairs ?occ)"
      with ne o have "(blk, a, b, w) \<in> ?D" unfolding detect_mem by blast
      then show ?thesis ..
    next
      assume "((b, sb, eb), (a, sa, ea)) \<in> set (pairs ?occ)"
      moreover have "max sb sa < min eb ea" "w = (max sb sa, min eb ea)"
        using o by (simp_all add: max.commute min.commute)
      ultimately have "(blk, b, a, w) \<in> ?D" using ne unfolding detect_mem by blast
      then show ?thesis ..
    qed
  qed
  have spelled: "?R \<longleftrightarrow> (a \<noteq> b
          \<and> (\<exists>ta \<in> set trains. \<exists>tb \<in> set trains.
               \<exists>oa \<in> set (occupancies ta). \<exists>ob \<in> set (occupancies tb).
                 train_id ta = a \<and> train_id tb = b \<and> block_id oa = blk \<and> block_id ob = blk
                 \<and> max (start_time oa) (start_time ob) < min (end_time oa) (end_time ob)
                 \<and> w = (max (start_time oa) (start_time ob), min (end_time oa) (end_time ob))))"
    unfolding occupants_mem by (rule conj_cong [OF refl]) blast
  have 1: "((blk, a, b, w) \<in> ?D \<or> (blk, b, a, w) \<in> ?D) \<longleftrightarrow> ?R"
    using fwd bwd by blast
  have 2: "(blk, a, a, w) \<notin> ?D" unfolding detect_mem by blast
  have 3: "(blk, a, b, w) \<in> ?D \<longrightarrow> fst w < snd w" unfolding detect_mem by auto
  from 1 [unfolded spelled] 2 3 show ?thesis by (intro conjI)
qed

theorem conflict_criterion_witness:
  "detect_block_conflicts [ex_train ''A'' 5 0 10, ex_train ''B'' 1 5 15]
     = [(''X-Y'', ''A'', ''B'', (5, 10))]
   \<and> detect_block_conflicts [ex_train ''A'' 5 0 10, ex_train ''B'' 1 10 20] = []
   \<and> detect_block_conflicts [ex_train ''A'' 5 0 10, ex_train ''A'' 5 5 15] = []"
proof -
  from ex_detect
  have "detect_block_conflicts [ex_train ''A'' 5 0 10, ex_train ''B'' 1 5 15]
     = [(''X-Y'', ''A'', ''B'', (5, 10))]
   \<and> detect_block_conflicts [ex_train ''A'' 5 0 10, ex_train ''B'' 1 10 20] = []
   \<and> detect_block_conflicts [ex_train ''A'' 5 0 10, ex_train ''A'' 5 5 15] = []"
    by (intro conjI)
  from this conflict_criterion [of "''X-Y''" "''A''" "''B''" "(5, 10)"
      "[ex_train ''A'' 5 0 10, ex_train ''B'' 1 5 15]"]
  show ?thesis by (rule conjunct1 [OF conjI])
qed

subsection \<open>Precedence\<close>











end
